theory Spec2Isabelle
  imports Main "HOL-Library.AList"
begin

section \<open>JavaScript values\<close>

text \<open>
  The bot (\<^verbatim>\<open>src/index.js\<close>) keeps its configuration in values that come from
  \<^verbatim>\<open>JSON.parse\<close> or from object literals, and JavaScript does not type them. The
  model keeps them as they are: a value is \<^verbatim>\<open>null\<close>, a boolean, a number, a
  string, an array or a plain object. An object is the list of its own properties in
  enumeration order (what \<^verbatim>\<open>Object.entries\<close> returns); its keys are distinct.
  Of a number the program only ever reads whether it is zero, so numbers are integers
  here. \<^verbatim>\<open>undefined\<close> is the value \<open>None\<close> of \<open>json option\<close>.

  Object keys are community identifiers or fixed field names. Discord identifiers are
  decimal numbers of 17 to 20 digits, so none is an array index (those stay below
  \<open>2^32\<close> and would be enumerated first) and none is the name \<^verbatim>\<open>__proto__\<close>:
  properties are enumerated in the order they were created, and writing a document
  to the file and parsing it again gives the same value.
\<close>

datatype json =
    JNull
  | JBool bool
  | JNum int
  | JStr string
  | JArr "json list"
  | JObj "(string \<times> json) list"

text \<open>ToBoolean: what \<^verbatim>\<open>if (v)\<close> and \<^verbatim>\<open>!v\<close> test.\<close>

fun truthy :: "json \<Rightarrow> bool" where
  "truthy JNull = False"
| "truthy (JBool b) = b"
| "truthy (JNum n) = (n \<noteq> 0)"
| "truthy (JStr s) = (s \<noteq> [])"
| "truthy (JArr xs) = True"
| "truthy (JObj kvs) = True"

fun isArray :: "json \<Rightarrow> bool" where
  "isArray (JArr xs) = True"
| "isArray v = False"

text \<open>Decimal numerals, as a template literal prints a count and as array indices are
  named. \<open>digit\<close> is only applied to numbers below ten.\<close>

definition digit :: "nat \<Rightarrow> char" where
  "digit d = ''0123456789'' ! d"

fun show_nat :: "nat \<Rightarrow> string" where
  "show_nat n = (if n < 10 then [digit n] else show_nat (n div 10) @ [digit (n mod 10)])"

declare show_nat.simps [simp del]

definition show_int :: "int \<Rightarrow> string" where
  "show_int i = (if i < 0 then CHR ''-'' # show_nat (nat (- i)) else show_nat (nat i))"

datatype channel_type = GuildCategory | GuildVoice | GuildText

text \<open>
  The calls the program makes to its collaborators: the Discord client (channel create,
  rename and delete, the member fetch, the replies to an interaction) and the file
  system (the write of \<^verbatim>\<open>config.json\<close>). The arguments are: the guild, then the
  channel or the name. The three replies are \<^verbatim>\<open>interaction.reply\<close>,
  \<^verbatim>\<open>interaction.deferReply\<close> and \<^verbatim>\<open>interaction.editReply\<close>.
\<close>

datatype request =
    ChannelCreate string string channel_type "string option"
  | ChannelSetName string string string
  | ChannelDelete string string
  | MembersFetch string
  | Reply
  | DeferReply
  | EditReply
  | WriteFile json

text \<open>
  What a \<^verbatim>\<open>try\<close> block can catch: a \<^verbatim>\<open>TypeError\<close> of the language (a property
  read on \<^verbatim>\<open>null\<close>, a loop over a value that is not iterable, a call of a method
  the value does not have), a collaborator's call that was rejected, a file that
  cannot be read, a text that \<^verbatim>\<open>JSON.parse\<close> refuses.
\<close>

datatype error =
    TypeError
  | Rejected request
  | ReadError
  | SyntaxError

text \<open>
  A property read \<^verbatim>\<open>v.k\<close>, for the names the program reads on configuration
  values (\<^verbatim>\<open>counterConfigs\<close>, \<^verbatim>\<open>configs\<close>, \<^verbatim>\<open>channelId\<close>, \<^verbatim>\<open>type\<close>,
  \<^verbatim>\<open>categoryId\<close>): it throws on \<^verbatim>\<open>null\<close>, finds an own property of an object,
  and is \<^verbatim>\<open>undefined\<close> on every other value.
\<close>

fun property :: "json \<Rightarrow> string \<Rightarrow> error + json option" where
  "property JNull k = Inl TypeError"
| "property (JObj kvs) k = Inr (map_of kvs k)"
| "property v k = Inr None"

text \<open>\<^verbatim>\<open>Object.entries(v)\<close> of a value that is not \<^verbatim>\<open>null\<close>: the properties of an
  object, the elements of an array or the characters of a string under their indices,
  nothing for a number or a boolean.\<close>

fun Object_entries :: "json \<Rightarrow> (string \<times> json) list" where
  "Object_entries (JObj kvs) = kvs"
| "Object_entries (JArr xs) = zip (map show_nat [0..<length xs]) xs"
| "Object_entries (JStr s) = zip (map show_nat [0..<length s]) (map (\<lambda>c. JStr [c]) s)"
| "Object_entries v = []"

text \<open>\<^verbatim>\<open>for (const x of v)\<close>: the elements of an array, the characters of a string; any
  other value is not iterable.\<close>

fun for_of :: "json \<Rightarrow> error + json list" where
  "for_of (JArr xs) = Inr xs"
| "for_of (JStr s) = Inr (map (\<lambda>c. JStr [c]) s)"
| "for_of v = Inl TypeError"

text \<open>\<^verbatim>\<open>v.length === 0\<close>, for a value that is not \<^verbatim>\<open>null\<close>.\<close>

fun length_is_0 :: "json \<Rightarrow> bool" where
  "length_is_0 (JArr xs) = (xs = [])"
| "length_is_0 (JStr s) = (s = [])"
| "length_is_0 (JObj kvs) = (map_of kvs ''length'' = Some (JNum 0))"
| "length_is_0 v = False"

section \<open>The configuration store\<close>

text \<open>
  \<^verbatim>\<open>counterConfigs\<close> is a \<^verbatim>\<open>Map\<close> from guild identifier to whatever was stored
  for it: the array that \<^verbatim>\<open>handleCounterSetup\<close> creates and extends, or the value
  \<^verbatim>\<open>loadConfigs\<close> found in the file. A \<^verbatim>\<open>Map\<close> iterates in insertion order and
  holds a key once: the model is an association list with distinct keys.
\<close>

type_synonym store = "(string \<times> json) list"

definition Map_get :: "store \<Rightarrow> string \<Rightarrow> json option" where
  "Map_get m k = map_of m k"

definition Map_has :: "store \<Rightarrow> string \<Rightarrow> bool" where
  "Map_has m k = (map_of m k \<noteq> None)"

definition Map_set :: "string \<Rightarrow> json \<Rightarrow> store \<Rightarrow> store" where
  "Map_set k v m = AList.update k v m"

definition Map_delete :: "string \<Rightarrow> store \<Rightarrow> store" where
  "Map_delete k m = AList.delete k m"

text \<open>A counter configuration as \<^verbatim>\<open>handleCounterSetup\<close> writes it (lines 244 to 248).\<close>

record counter_config =
  channelId :: string
  type :: string
  categoryId :: string

definition config_json :: "counter_config \<Rightarrow> json" where
  "config_json c =
     JObj [(''channelId'', JStr (channelId c)), (''type'', JStr (type c)),
           (''categoryId'', JStr (categoryId c))]"

section \<open>The collaborators\<close>

record channel =
  ch_name :: string
  ch_type :: channel_type
  ch_parent :: "string option"

text \<open>A guild of \<^verbatim>\<open>client.guilds.cache\<close>: its name and its channel cache.\<close>

record guild =
  g_name :: string
  channels :: "(string \<times> channel) list"

text \<open>A fetched guild member, as far as \<^verbatim>\<open>getCountForType\<close> reads it:
  \<^verbatim>\<open>m.user.bot\<close>, \<^verbatim>\<open>m.roles.cache.size\<close> and \<^verbatim>\<open>m.presence?.status\<close>
  (\<open>None\<close> when the member has no presence).\<close>

record member =
  bot :: bool
  roles :: nat
  presence :: "string option"

text \<open>
  The collaborators decide whether a call succeeds and what it returns. The model takes
  their answers as a parameter: an answer may depend on the call and on every call made
  before it, and nothing else is assumed about it.
\<close>

record platform =
  accepts :: "request list \<Rightarrow> request \<Rightarrow> bool"
  created_id :: "request list \<Rightarrow> request \<Rightarrow> string"
  fetched :: "request list \<Rightarrow> string \<Rightarrow> member list"

datatype config_file = Missing | Unparsable | Document json

text \<open>The state the program works on: the store, the client's guild cache, the file
  \<^verbatim>\<open>config.json\<close>, and the calls made so far, oldest first.\<close>

record bot_state =
  counterConfigs :: store
  guilds :: "(string \<times> guild) list"
  CONFIG_FILE :: config_file
  requests :: "request list"

definition send :: "platform \<Rightarrow> request \<Rightarrow> bot_state \<Rightarrow> bool \<times> bot_state" where
  "send P r s = (accepts P (requests s) r, s\<lparr>requests := requests s @ [r]\<rparr>)"

definition guild_channels :: "bot_state \<Rightarrow> string \<Rightarrow> (string \<times> channel) list" where
  "guild_channels s guildId = (case map_of (guilds s) guildId of None \<Rightarrow> [] | Some g \<Rightarrow> channels g)"

definition set_guild_channels :: "string \<Rightarrow> (string \<times> channel) list \<Rightarrow> bot_state \<Rightarrow> bot_state" where
  "set_guild_channels guildId chs s =
     s\<lparr>guilds := map (\<lambda>(k, g). if k = guildId then (k, g\<lparr>channels := chs\<rparr>) else (k, g)) (guilds s)\<rparr>"


section \<open>The snapshot codec: saveConfigs and loadConfigs\<close>

definition serverName :: "(string \<times> guild) list \<Rightarrow> string \<Rightarrow> string" where
  "serverName gs guildId =
     (case map_of gs guildId of Some guild \<Rightarrow> g_name guild | None \<Rightarrow> ''Unknown Server'')"

text \<open>The object \<^verbatim>\<open>configData\<close> that lines 44 to 55 build.\<close>

definition configData :: "(string \<times> guild) list \<Rightarrow> store \<Rightarrow> json" where
  "configData gs m =
     JObj [(''counterConfigs'',
       JObj (map (\<lambda>(guildId, configs).
                (guildId, JObj [(''serverName'', JStr (serverName gs guildId)),
                                (''configs'', configs)])) m))]"

text \<open>A failed write is caught and logged (line 60); the model leaves the file as it was.\<close>

definition saveConfigs :: "platform \<Rightarrow> bot_state \<Rightarrow> bot_state" where
  "saveConfigs P s =
     (let doc = configData (guilds s) (counterConfigs s) in
      case send P (WriteFile doc) s of
        (True, s1) \<Rightarrow> s1\<lparr>CONFIG_FILE := Document doc\<rparr>
      | (False, s1) \<Rightarrow> s1)"

text \<open>
  The loop of lines 72 to 81 over \<^verbatim>\<open>Object.entries(configData.counterConfigs)\<close>,
  started on the cleared map. It returns the map it has built, and the error when a
  step threw: the \<^verbatim>\<open>catch\<close> of line 87 then ends the load where it stands.
\<close>

fun load_entries :: "(string \<times> json) list \<Rightarrow> store \<Rightarrow> error option \<times> store" where
  "load_entries [] m = (None, m)"
| "load_entries ((guildId, guildData) # rest) m =
     (if isArray guildData then load_entries rest (Map_set guildId guildData m)
      else case property guildData ''configs'' of
             Inl e \<Rightarrow> (Some e, m)
           | Inr None \<Rightarrow> load_entries rest m
           | Inr (Some configs) \<Rightarrow>
               if truthy configs then load_entries rest (Map_set guildId configs m)
               else load_entries rest m)"

text \<open>\<^verbatim>\<open>loadConfigs\<close> never throws; the model returns what its \<^verbatim>\<open>catch\<close> logged.\<close>

definition loadConfigs :: "bot_state \<Rightarrow> error option \<times> bot_state" where
  "loadConfigs s =
     (case CONFIG_FILE s of
        Missing \<Rightarrow> (Some ReadError, s)
      | Unparsable \<Rightarrow> (Some SyntaxError, s)
      | Document data \<Rightarrow>
          (case property data ''counterConfigs'' of
             Inl e \<Rightarrow> (Some e, s)
           | Inr None \<Rightarrow> (None, s)
           | Inr (Some cc) \<Rightarrow>
               if truthy cc
               then (case load_entries (Object_entries cc) [] of
                       (e, m) \<Rightarrow> (e, s\<lparr>counterConfigs := m\<rparr>))
               else (None, s)))"

section \<open>Statistic evaluation: getCountForType\<close>

definition size_filter :: "(member \<Rightarrow> bool) \<Rightarrow> member list \<Rightarrow> int" where
  "size_filter p members = int (length (filter p members))"

definition is_online :: "member \<Rightarrow> bool" where
  "is_online m = (presence m \<in> {Some ''online'', Some ''idle'', Some ''dnd''})"

definition is_offline :: "member \<Rightarrow> bool" where
  "is_offline m = (presence m = None \<or> presence m = Some ''offline'')"

text \<open>The \<^verbatim>\<open>switch (type)\<close> of lines 466 to 490, on a string.\<close>

definition countForType :: "string \<Rightarrow> member list \<Rightarrow> int" where
  "countForType t members =
     (if t = ''members'' then size_filter (\<lambda>m. \<not> bot m) members
      else if t = ''bots'' then size_filter (\<lambda>m. bot m) members
      else if t = ''roles'' then size_filter (\<lambda>m. \<not> bot m \<and> roles m > 1) members
      else if t = ''online-members'' then size_filter (\<lambda>m. \<not> bot m \<and> is_online m) members
      else if t = ''online-bots'' then size_filter (\<lambda>m. bot m \<and> is_online m) members
      else if t = ''offline-members'' then size_filter (\<lambda>m. \<not> bot m \<and> is_offline m) members
      else if t = ''offline-bots'' then size_filter (\<lambda>m. bot m \<and> is_offline m) members
      else 0)"

text \<open>The switch compares with \<^verbatim>\<open>===\<close>: a value that is not a string takes the
  default branch.\<close>

definition switch_type :: "json option \<Rightarrow> member list \<Rightarrow> int" where
  "switch_type t members = (case t of Some (JStr k) \<Rightarrow> countForType k members | _ \<Rightarrow> 0)"

definition getCountForType ::
  "platform \<Rightarrow> string \<Rightarrow> json option \<Rightarrow> bot_state \<Rightarrow> (error + int) \<times> bot_state" where
  "getCountForType P guildId t s =
     (case send P (MembersFetch guildId) s of
        (False, s1) \<Rightarrow> (Inl (Rejected (MembersFetch guildId)), s1)
      | (True, s1) \<Rightarrow> (Inr (switch_type t (fetched P (requests s) guildId)), s1))"

section \<open>Counter names\<close>

definition COUNTER_TYPES :: "(string \<times> string) list" where
  "COUNTER_TYPES =
     [(''members'', ''Total Members''),
      (''bots'', ''Total Bots''),
      (''roles'', ''Members with Roles''),
      (''online-members'', ''Online Members''),
      (''online-bots'', ''Online Bots''),
      (''offline-members'', ''Offline Members''),
      (''offline-bots'', ''Offline Bots'')]"

fun join_comma :: "string list \<Rightarrow> string" where
  "join_comma [] = []"
| "join_comma [x] = x"
| "join_comma (x # y # ys) = x @ '','' @ join_comma (y # ys)"

fun sequence :: "(error + 'a) list \<Rightarrow> error + 'a list" where
  "sequence [] = Inr []"
| "sequence (Inl e # rest) = Inl e"
| "sequence (Inr x # rest) = (case sequence rest of Inl e \<Rightarrow> Inl e | Inr xs \<Rightarrow> Inr (x # xs))"

text \<open>
  The string a value of the store converts to. An array joins the strings of its
  elements, \<^verbatim>\<open>null\<close> giving the empty string. An object converts through the
  \<^verbatim>\<open>toString\<close> it inherits, unless it has a property of that name of its own:
  no value of a parsed document is callable, so the conversion then falls through to
  the inherited \<^verbatim>\<open>valueOf\<close>, which returns the object, and throws.
\<close>

fun ToString :: "json \<Rightarrow> error + string" where
  "ToString JNull = Inr ''null''"
| "ToString (JBool b) = Inr (if b then ''true'' else ''false'')"
| "ToString (JNum n) = Inr (show_int n)"
| "ToString (JStr s) = Inr s"
| "ToString (JArr xs) =
     (case sequence (map (\<lambda>x. if x = JNull then Inr [] else ToString x) xs) of
        Inl e \<Rightarrow> Inl e
      | Inr parts \<Rightarrow> Inr (join_comma parts))"
| "ToString (JObj kvs) =
     (if map_of kvs ''toString'' = None then Inr ''[object Object]'' else Inl TypeError)"

text \<open>The property key that \<^verbatim>\<open>COUNTER_TYPES[v]\<close> looks up: the string the
  value converts to.\<close>

definition ToPropertyKey :: "json option \<Rightarrow> error + string" where
  "ToPropertyKey t = (case t of None \<Rightarrow> Inr ''undefined'' | Some v \<Rightarrow> ToString v)"

text \<open>
  The functions that the table inherits from \<^verbatim>\<open>Object.prototype\<close>, which a
  property read finds as well as the seven labels.
\<close>

definition inherited_functions :: "string list" where
  "inherited_functions =
     [''__defineGetter__'', ''__defineSetter__'', ''hasOwnProperty'', ''__lookupGetter__'',
      ''__lookupSetter__'', ''isPrototypeOf'', ''propertyIsEnumerable'', ''toString'',
      ''valueOf'', ''toLocaleString'']"

text \<open>
  The text of \<^verbatim>\<open>${COUNTER_TYPES[key]}\<close>: the label of one of the seven kinds;
  for an inherited name what Node prints for the value found (the source text of a
  built-in function, and \<^verbatim>\<open>[object Object]\<close> for the prototype itself); and
  \<^verbatim>\<open>undefined\<close> for every other key.
\<close>

definition label_text :: "string \<Rightarrow> string" where
  "label_text key =
     (case map_of COUNTER_TYPES key of
        Some label \<Rightarrow> label
      | None \<Rightarrow>
          if key = ''__proto__'' then ''[object Object]''
          else if key = ''constructor'' then ''function Object() { [native code] }''
          else if key \<in> set inherited_functions
               then ''function '' @ key @ ''() { [native code] }''
          else ''undefined'')"

text \<open>The template literal of lines 225, 504 and 621, for the property key that the type
  converted to.\<close>

definition channelName :: "string \<Rightarrow> int \<Rightarrow> string" where
  "channelName key count = label_text key @ '': '' @ show_int count"

section \<open>Channel operations of the client\<close>

text \<open>
  A call that the platform accepts updates the client's channel cache before the
  \<^verbatim>\<open>await\<close> returns; a rejected call throws and changes nothing.
\<close>

definition setName ::
  "platform \<Rightarrow> string \<Rightarrow> string \<Rightarrow> string \<Rightarrow> bot_state \<Rightarrow> error option \<times> bot_state" where
  "setName P guildId cid newName s =
     (let r = ChannelSetName guildId cid newName in
      case send P r s of
        (False, s1) \<Rightarrow> (Some (Rejected r), s1)
      | (True, s1) \<Rightarrow>
          (None, set_guild_channels guildId
             (map (\<lambda>(k, c). if k = cid then (k, c\<lparr>ch_name := newName\<rparr>) else (k, c))
                (guild_channels s1 guildId)) s1))"

definition channel_delete ::
  "platform \<Rightarrow> string \<Rightarrow> string \<Rightarrow> bot_state \<Rightarrow> error option \<times> bot_state" where
  "channel_delete P guildId cid s =
     (let r = ChannelDelete guildId cid in
      case send P r s of
        (False, s1) \<Rightarrow> (Some (Rejected r), s1)
      | (True, s1) \<Rightarrow>
          (None, set_guild_channels guildId (AList.delete cid (guild_channels s1 guildId)) s1))"

definition channels_create ::
  "platform \<Rightarrow> string \<Rightarrow> string \<Rightarrow> channel_type \<Rightarrow> string option \<Rightarrow> bot_state
     \<Rightarrow> (error + string) \<times> bot_state" where
  "channels_create P guildId name ty parent s =
     (let r = ChannelCreate guildId name ty parent in
      case send P r s of
        (False, s1) \<Rightarrow> (Inl (Rejected r), s1)
      | (True, s1) \<Rightarrow>
          (let cid = created_id P (requests s) r in
           (Inr cid, set_guild_channels guildId
              (AList.update cid \<lparr>ch_name = name, ch_type = ty, ch_parent = parent\<rparr>
                 (guild_channels s1 guildId)) s1)))"

text \<open>\<^verbatim>\<open>guild.channels.cache.get(v)\<close>: the cache is keyed by strings.\<close>

definition cache_get :: "(string \<times> channel) list \<Rightarrow> json option \<Rightarrow> (string \<times> channel) option" where
  "cache_get chs key =
     (case key of
        Some (JStr cid) \<Rightarrow> (case map_of chs cid of None \<Rightarrow> None | Some c \<Rightarrow> Some (cid, c))
      | _ \<Rightarrow> None)"

text \<open>\<^verbatim>\<open>category.children.cache.size\<close>: only a category channel has
  \<^verbatim>\<open>children\<close>.\<close>

definition children_size :: "(string \<times> channel) list \<Rightarrow> string \<Rightarrow> channel \<Rightarrow> error + nat" where
  "children_size chs cid category =
     (if ch_type category = GuildCategory
      then Inr (length (filter (\<lambda>(k, c). ch_parent c = Some cid) chs))
      else Inl TypeError)"


section \<open>The reconcile pass: updateAllCounters and updateGuildCounters\<close>

text \<open>
  The body of the \<^verbatim>\<open>try\<close> of lines 499 to 514 (and of lines 616 to 626, which
  differ only in what they log) for one configuration: \<open>None\<close> when it ran to its end
  or left by \<^verbatim>\<open>continue\<close>, the error when it threw.
\<close>

definition update_counter ::
  "platform \<Rightarrow> string \<Rightarrow> json \<Rightarrow> bot_state \<Rightarrow> error option \<times> bot_state" where
  "update_counter P guildId config s =
     (case property config ''channelId'' of
        Inl e \<Rightarrow> (Some e, s)
      | Inr key \<Rightarrow>
          (case cache_get (guild_channels s guildId) key of
             None \<Rightarrow> (None, s)
           | Some (cid, channel) \<Rightarrow>
               (case property config ''type'' of
                  Inl e \<Rightarrow> (Some e, s)
                | Inr t \<Rightarrow>
                    (case getCountForType P guildId t s of
                       (Inl e, s1) \<Rightarrow> (Some e, s1)
                     | (Inr count, s1) \<Rightarrow>
                         (case ToPropertyKey t of
                            Inl e \<Rightarrow> (Some e, s1)
                          | Inr key \<Rightarrow>
                              (let newName = channelName key count in
                               if ch_name channel \<noteq> newName then setName P guildId cid newName s1
                               else (None, s1)))))))"

text \<open>
  The loop over the configurations of one guild. An error of the \<^verbatim>\<open>try\<close> is caught
  and logged, and the loop goes on; but the \<^verbatim>\<open>catch\<close> reads
  \<^verbatim>\<open>config.channelId\<close> for its log line, so on a \<^verbatim>\<open>null\<close> configuration it
  throws again and the loop ends there with that error.
\<close>

fun update_loop ::
  "platform \<Rightarrow> string \<Rightarrow> json list \<Rightarrow> bot_state \<Rightarrow> error option \<times> bot_state" where
  "update_loop P guildId [] s = (None, s)"
| "update_loop P guildId (config # rest) s =
     (case update_counter P guildId config s of
        (None, s1) \<Rightarrow> update_loop P guildId rest s1
      | (Some e, s1) \<Rightarrow>
          (case property config ''channelId'' of
             Inl e' \<Rightarrow> (Some e', s1)
           | Inr _ \<Rightarrow> update_loop P guildId rest s1))"

text \<open>\<^verbatim>\<open>updateGuildCounters(guild)\<close>, for the cached guild with this identifier. The
  error is the one the returned promise rejects with.\<close>

definition updateGuildCounters ::
  "platform \<Rightarrow> string \<Rightarrow> bot_state \<Rightarrow> error option \<times> bot_state" where
  "updateGuildCounters P guildId s =
     (case Map_get (counterConfigs s) guildId of
        None \<Rightarrow> (None, s)
      | Some configs \<Rightarrow>
          if \<not> truthy configs then (None, s)
          else (case for_of configs of
                  Inl e \<Rightarrow> (Some e, s)
                | Inr cs \<Rightarrow> update_loop P guildId cs s))"

text \<open>The outer loop of \<^verbatim>\<open>updateAllCounters\<close> over the entries of the store.\<close>

fun update_guilds ::
  "platform \<Rightarrow> (string \<times> json) list \<Rightarrow> bot_state \<Rightarrow> error option \<times> bot_state" where
  "update_guilds P [] s = (None, s)"
| "update_guilds P ((guildId, configs) # rest) s =
     (case map_of (guilds s) guildId of
        None \<Rightarrow> update_guilds P rest s
      | Some guild \<Rightarrow>
          (case for_of configs of
             Inl e \<Rightarrow> (Some e, s)
           | Inr cs \<Rightarrow>
               (case update_loop P guildId cs s of
                  (Some e, s1) \<Rightarrow> (Some e, s1)
                | (None, s1) \<Rightarrow> update_guilds P rest s1)))"

definition updateAllCounters :: "platform \<Rightarrow> bot_state \<Rightarrow> error option \<times> bot_state" where
  "updateAllCounters P s = update_guilds P (counterConfigs s) s"

section \<open>Provisioning: handleCounterSetup\<close>

text \<open>A slash command as the handlers read it: the guild it was sent in, the
  permissions of the member who sent it, and the two options of
  \<^verbatim>\<open>/counter-setup\<close>.\<close>

record interaction =
  guild_id :: string
  ManageChannels :: bool
  Administrator :: bool
  opt_type :: string
  opt_category :: string

text \<open>
  What a handler answers the member with: the refusal for lack of permission; the embed
  \<^verbatim>\<open>Counter Setup Complete\<close>; the embed \<^verbatim>\<open>Counter Setup Failed\<close> of the
  \<^verbatim>\<open>catch\<close>, with the error caught; the embed \<^verbatim>\<open>No Counters Found\<close>, which
  has no field; the embed \<^verbatim>\<open>Counter Reset Complete\<close> with its two fields, the
  channels deleted and the failed deletions; the embed \<^verbatim>\<open>Counter Reset Failed\<close>
  of the \<^verbatim>\<open>catch\<close>, with the error caught.
\<close>

datatype outcome =
    PermissionDenied
  | SetupComplete
  | SetupFailed error
  | NoCountersFound
  | ResetComplete nat nat
  | ResetFailed error

definition find_or_create_category ::
  "platform \<Rightarrow> string \<Rightarrow> string \<Rightarrow> bot_state \<Rightarrow> (error + string) \<times> bot_state" where
  "find_or_create_category P guildId categoryName s =
     (case find (\<lambda>(k, c). ch_type c = GuildCategory \<and> ch_name c = categoryName)
             (guild_channels s guildId) of
        Some (cid, c) \<Rightarrow> (Inr cid, s)
      | None \<Rightarrow> channels_create P guildId categoryName GuildCategory None s)"

text \<open>Lines 240 to 248: \<^verbatim>\<open>push\<close> exists on arrays only.\<close>

definition push_config :: "string \<Rightarrow> json \<Rightarrow> store \<Rightarrow> error + store" where
  "push_config guildId config m =
     (let m1 = (if \<not> Map_has m guildId then Map_set guildId (JArr []) m else m) in
      case Map_get m1 guildId of
        Some (JArr xs) \<Rightarrow> Inr (Map_set guildId (JArr (xs @ [config])) m1)
      | _ \<Rightarrow> Inl TypeError)"

text \<open>The \<^verbatim>\<open>try\<close> block of \<^verbatim>\<open>handleCounterSetup\<close> after the permission check.
  \<^verbatim>\<open>interaction.guild\<close> is the cached guild, or \<^verbatim>\<open>null\<close>.\<close>

definition setup_try :: "platform \<Rightarrow> interaction \<Rightarrow> bot_state \<Rightarrow> (error + unit) \<times> bot_state" where
  "setup_try P i s =
     (case send P DeferReply s of
        (False, s1) \<Rightarrow> (Inl (Rejected DeferReply), s1)
      | (True, s1) \<Rightarrow>
     (case map_of (guilds s1) (guild_id i) of
        None \<Rightarrow> (Inl TypeError, s1)
      | Some guild \<Rightarrow>
     (case find_or_create_category P (guild_id i) (opt_category i) s1 of
        (Inl e, s2) \<Rightarrow> (Inl e, s2)
      | (Inr category, s2) \<Rightarrow>
     (case getCountForType P (guild_id i) (Some (JStr (opt_type i))) s2 of
        (Inl e, s3) \<Rightarrow> (Inl e, s3)
      | (Inr count, s3) \<Rightarrow>
     (case channels_create P (guild_id i) (channelName (opt_type i) count)
             GuildVoice (Some category) s3 of
        (Inl e, s4) \<Rightarrow> (Inl e, s4)
      | (Inr counterChannel, s4) \<Rightarrow>
     (case push_config (guild_id i)
             (config_json \<lparr>channelId = counterChannel, type = opt_type i, categoryId = category\<rparr>)
             (counterConfigs s4) of
        Inl e \<Rightarrow> (Inl e, s4)
      | Inr m \<Rightarrow>
     (case send P EditReply (saveConfigs P (s4\<lparr>counterConfigs := m\<rparr>)) of
        (False, s5) \<Rightarrow> (Inl (Rejected EditReply), s5)
      | (True, s5) \<Rightarrow> (Inr (), s5))))))))"

text \<open>
  \<^verbatim>\<open>handleCounterSetup(interaction)\<close>. A member without the permission is
  answered with \<^verbatim>\<open>interaction.reply\<close>, which is returned and not awaited, so
  its rejection is not caught. An error of the \<^verbatim>\<open>try\<close> block is caught, logged
  and answered with \<^verbatim>\<open>interaction.editReply\<close> (line 318); when that call is
  rejected as well, the promise of the handler rejects. The outcome names the error
  that was caught.
\<close>

definition handleCounterSetup :: "platform \<Rightarrow> interaction \<Rightarrow> bot_state \<Rightarrow> outcome \<times> bot_state" where
  "handleCounterSetup P i s =
     (if \<not> ManageChannels i then (PermissionDenied, snd (send P Reply s))
      else case setup_try P i s of
             (Inl e, s1) \<Rightarrow> (SetupFailed e, snd (send P EditReply s1))
           | (Inr u, s1) \<Rightarrow> (SetupComplete, s1))"

section \<open>Teardown: handleCounterReset\<close>

text \<open>Lines 379 to 383: the category is deleted when it is cached and has no child.\<close>

definition delete_empty_category ::
  "platform \<Rightarrow> string \<Rightarrow> json \<Rightarrow> bot_state \<Rightarrow> error option \<times> bot_state" where
  "delete_empty_category P guildId config s =
     (case property config ''categoryId'' of
        Inl e \<Rightarrow> (Some e, s)
      | Inr key \<Rightarrow>
          (case cache_get (guild_channels s guildId) key of
             None \<Rightarrow> (None, s)
           | Some (cid, category) \<Rightarrow>
               (case children_size (guild_channels s guildId) cid category of
                  Inl e \<Rightarrow> (Some e, s)
                | Inr n \<Rightarrow> if n = 0 then channel_delete P guildId cid s else (None, s))))"

text \<open>The body of the \<^verbatim>\<open>try\<close> of lines 372 to 384 for one configuration, with the
  running value of \<^verbatim>\<open>deletedChannels\<close>.\<close>

definition delete_counter ::
  "platform \<Rightarrow> string \<Rightarrow> json \<Rightarrow> nat \<Rightarrow> bot_state \<Rightarrow> error option \<times> nat \<times> bot_state" where
  "delete_counter P guildId config deleted s =
     (case property config ''channelId'' of
        Inl e \<Rightarrow> (Some e, deleted, s)
      | Inr key \<Rightarrow>
          (case cache_get (guild_channels s guildId) key of
             None \<Rightarrow>
               (case delete_empty_category P guildId config s of (e, s1) \<Rightarrow> (e, deleted, s1))
           | Some (cid, channel) \<Rightarrow>
               (case channel_delete P guildId cid s of
                  (Some e, s1) \<Rightarrow> (Some e, deleted, s1)
                | (None, s1) \<Rightarrow>
                    (case delete_empty_category P guildId config s1 of
                       (e, s2) \<Rightarrow> (e, deleted + 1, s2)))))"

text \<open>
  The loop of lines 371 to 393 with its two counters. The \<^verbatim>\<open>catch\<close> counts the
  failure and goes on; as in the reconcile pass it reads \<^verbatim>\<open>config.channelId\<close> for
  the log, and on a \<^verbatim>\<open>null\<close> configuration throws out of the loop.
\<close>

fun reset_loop ::
  "platform \<Rightarrow> string \<Rightarrow> json list \<Rightarrow> nat \<Rightarrow> nat \<Rightarrow> bot_state
     \<Rightarrow> error option \<times> nat \<times> nat \<times> bot_state" where
  "reset_loop P guildId [] deleted failed s = (None, deleted, failed, s)"
| "reset_loop P guildId (config # rest) deleted failed s =
     (case delete_counter P guildId config deleted s of
        (None, deleted1, s1) \<Rightarrow> reset_loop P guildId rest deleted1 failed s1
      | (Some e, deleted1, s1) \<Rightarrow>
          (case property config ''channelId'' of
             Inl e' \<Rightarrow> (Some e', deleted1, failed + 1, s1)
           | Inr _ \<Rightarrow> reset_loop P guildId rest deleted1 (failed + 1) s1))"

definition no_counters :: "platform \<Rightarrow> bot_state \<Rightarrow> (error + outcome) \<times> bot_state" where
  "no_counters P s =
     (case send P EditReply s of
        (False, s1) \<Rightarrow> (Inl (Rejected EditReply), s1)
      | (True, s1) \<Rightarrow> (Inr NoCountersFound, s1))"

text \<open>The \<^verbatim>\<open>try\<close> block of \<^verbatim>\<open>handleCounterReset\<close> after the permission check:
  the error it throws, or the reply it ends with.\<close>

definition reset_try :: "platform \<Rightarrow> interaction \<Rightarrow> bot_state \<Rightarrow> (error + outcome) \<times> bot_state" where
  "reset_try P i s =
     (case send P DeferReply s of
        (False, s1) \<Rightarrow> (Inl (Rejected DeferReply), s1)
      | (True, s1) \<Rightarrow>
     (case map_of (guilds s1) (guild_id i) of
        None \<Rightarrow> (Inl TypeError, s1)
      | Some guild \<Rightarrow>
     (case Map_get (counterConfigs s1) (guild_id i) of
        None \<Rightarrow> no_counters P s1
      | Some configs \<Rightarrow>
          if \<not> truthy configs \<or> length_is_0 configs then no_counters P s1
          else
     (case for_of configs of
        Inl e \<Rightarrow> (Inl e, s1)
      | Inr cs \<Rightarrow>
     (case reset_loop P (guild_id i) cs 0 0 s1 of
        (Some e, deleted, failed, s2) \<Rightarrow> (Inl e, s2)
      | (None, deleted, failed, s2) \<Rightarrow>
     (case send P EditReply
             (saveConfigs P (s2\<lparr>counterConfigs := Map_delete (guild_id i) (counterConfigs s2)\<rparr>)) of
        (False, s3) \<Rightarrow> (Inl (Rejected EditReply), s3)
      | (True, s3) \<Rightarrow> (Inr (ResetComplete deleted failed), s3)))))))"

text \<open>
  \<^verbatim>\<open>handleCounterReset(interaction)\<close>. As in the setup handler, the reply to a
  member without the permission is not awaited, and an error of the \<^verbatim>\<open>try\<close>
  block is caught, logged and answered with \<^verbatim>\<open>interaction.editReply\<close>
  (line 459); the outcome names the error that was caught.
\<close>

definition handleCounterReset :: "platform \<Rightarrow> interaction \<Rightarrow> bot_state \<Rightarrow> outcome \<times> bot_state" where
  "handleCounterReset P i s =
     (if \<not> Administrator i then (PermissionDenied, snd (send P Reply s))
      else case reset_try P i s of
             (Inl e, s1) \<Rightarrow> (ResetFailed e, snd (send P EditReply s1))
           | (Inr out, s1) \<Rightarrow> (out, s1))"

section \<open>Vocabulary of the properties\<close>

text \<open>The two shapes of an entry of the persisted document: the guild mapped to its
  configurations directly, and the guild mapped to an object with a label and the
  configurations.\<close>

definition legacy_shape :: "string \<times> json \<Rightarrow> string \<times> json" where
  "legacy_shape = (\<lambda>(guildId, configs). (guildId, configs))"

definition new_shape :: "(string \<Rightarrow> string) \<Rightarrow> string \<times> json \<Rightarrow> string \<times> json" where
  "new_shape label = (\<lambda>(guildId, configs).
      (guildId, JObj [(''serverName'', JStr (label guildId)), (''configs'', configs)]))"

text \<open>The calls of a kind among the calls made.\<close>

fun is_rename :: "request \<Rightarrow> bool" where
  "is_rename (ChannelSetName g c n) = True"
| "is_rename r = False"

fun is_delete :: "request \<Rightarrow> bool" where
  "is_delete (ChannelDelete g c) = True"
| "is_delete r = False"

text \<open>The calls the setup makes before it appends the configuration to the store.\<close>

fun precedes_push :: "request \<Rightarrow> bool" where
  "precedes_push DeferReply = True"
| "precedes_push (ChannelCreate g n ty p) = True"
| "precedes_push (MembersFetch g) = True"
| "precedes_push r = False"

text \<open>The name a counter channel should carry, for a configuration as the setup writes
  it and a membership.\<close>

definition target_name :: "member list \<Rightarrow> counter_config \<Rightarrow> string" where
  "target_name ms c = channelName (type c) (countForType (type c) ms)"

text \<open>
  The calls one configuration asks of a reconcile pass, given the channels of its guild
  and the membership: none when its channel is not cached; else the member fetch,
  followed by the rename to the target name exactly when the channel carries another
  name.
\<close>

definition counter_calls ::
  "(string \<times> channel) list \<Rightarrow> member list \<Rightarrow> string \<Rightarrow> counter_config \<Rightarrow> request list" where
  "counter_calls chs ms g c =
     (case map_of chs (channelId c) of
        None \<Rightarrow> []
      | Some ch \<Rightarrow>
          MembersFetch g #
            (if ch_name ch \<noteq> target_name ms c
             then [ChannelSetName g (channelId c) (target_name ms c)] else []))"

text \<open>Every configuration whose channel is cached finds it under its target name.\<close>

definition settled :: "(string \<times> channel) list \<Rightarrow> member list \<Rightarrow> counter_config list \<Rightarrow> bool" where
  "settled chs ms cfgs =
     (\<forall>c\<in>set cfgs. case map_of chs (channelId c) of None \<Rightarrow> True
                    | Some ch \<Rightarrow> ch_name ch = target_name ms c)"

text \<open>The member fetch always succeeds and returns the same members for a guild: the
  membership does not change.\<close>

definition steady :: "platform \<Rightarrow> bool" where
  "steady P = (\<forall>h h' g. accepts P h (MembersFetch g) \<and> fetched P h g = fetched P h' g)"

text \<open>Every rename is accepted.\<close>

definition renaming :: "platform \<Rightarrow> bool" where
  "renaming P = (\<forall>h g c n. accepts P h (ChannelSetName g c n))"

text \<open>The store that holds, for each guild, the configurations the setup wrote.\<close>

definition store_of :: "(string \<times> counter_config list) list \<Rightarrow> store" where
  "store_of tm = map (\<lambda>(guildId, cfgs). (guildId, JArr (map config_json cfgs))) tm"

text \<open>The channels of the configurations are cached and are not categories, and each
  category of a configuration is a category channel or is not cached.\<close>

definition counters_cached :: "(string \<times> channel) list \<Rightarrow> counter_config list \<Rightarrow> bool" where
  "counters_cached chs cfgs =
     (\<forall>c\<in>set cfgs.
        (case map_of chs (channelId c) of None \<Rightarrow> False | Some ch \<Rightarrow> ch_type ch \<noteq> GuildCategory)
      \<and> (case map_of chs (categoryId c) of None \<Rightarrow> True | Some k \<Rightarrow> ch_type k = GuildCategory))"

text \<open>The category exists and has no child channel.\<close>

definition category_empty :: "(string \<times> channel) list \<Rightarrow> string \<Rightarrow> bool" where
  "category_empty chs k =
     (case map_of chs k of
        None \<Rightarrow> False
      | Some category \<Rightarrow>
          ch_type category = GuildCategory
          \<and> filter (\<lambda>(k', ch). ch_parent ch = Some k) chs = [])"

section \<open>Scenarios\<close>

text \<open>
  Concrete states and platforms for the examples below. Identifiers are shortened to
  three digits; where an object has several such keys they are listed in ascending
  order, which is the order in which JavaScript enumerates keys this short.

  A platform that accepts every call, and a membership of two people and a bot:
\<close>

definition three_members :: "member list" where
  "three_members =
     [\<lparr>bot = False, roles = 2, presence = Some ''idle''\<rparr>,
      \<lparr>bot = True, roles = 1, presence = None\<rparr>,
      \<lparr>bot = False, roles = 1, presence = Some ''offline''\<rparr>]"

definition obliging :: platform where
  "obliging = \<lparr>accepts = (\<lambda>h r. True),
     created_id = (\<lambda>h r. case r of ChannelCreate g n GuildCategory p \<Rightarrow> ''900'' | _ \<Rightarrow> ''901''),
     fetched = (\<lambda>h g. three_members)\<rparr>"

text \<open>Platforms that reject one kind of call and accept every other.\<close>

definition keeps_502 :: platform where
  "keeps_502 = obliging\<lparr>accepts := (\<lambda>h r. r \<noteq> ChannelDelete ''111'' ''502'')\<rparr>"

definition keeps_501 :: platform where
  "keeps_501 = obliging\<lparr>accepts := (\<lambda>h r. r \<noteq> ChannelDelete ''111'' ''501'')\<rparr>"

definition no_voice :: platform where
  "no_voice = obliging\<lparr>accepts :=
     (\<lambda>h r. case r of ChannelCreate g n ty p \<Rightarrow> ty \<noteq> GuildVoice | _ \<Rightarrow> True)\<rparr>"

text \<open>A command of an administrator in guild 111.\<close>

definition admin :: interaction where
  "admin = \<lparr>guild_id = ''111'', ManageChannels = True, Administrator = True,
     opt_type = ''members'', opt_category = ''Stats''\<rparr>"

text \<open>Guild 111 with an empty configuration array and no channel.\<close>

definition one_guild :: bot_state where
  "one_guild = \<lparr>counterConfigs = [(''111'', JArr [])],
     guilds = [(''111'', \<lparr>g_name = ''Guild'', channels = []\<rparr>)],
     CONFIG_FILE = Missing, requests = []\<rparr>"

text \<open>Guild 111 with no entry in the store.\<close>

definition unconfigured :: bot_state where
  "unconfigured = \<lparr>counterConfigs = [],
     guilds = [(''111'', \<lparr>g_name = ''Guild'', channels = []\<rparr>)],
     CONFIG_FILE = Missing, requests = []\<rparr>"

text \<open>Guild 111 with one configuration whose channel is gone.\<close>

definition stale_counter :: bot_state where
  "stale_counter = \<lparr>counterConfigs =
       [(''111'', JArr [config_json \<lparr>channelId = ''501'', type = ''members'', categoryId = ''500''\<rparr>])],
     guilds = [(''111'', \<lparr>g_name = ''Guild'', channels = []\<rparr>)],
     CONFIG_FILE = Missing, requests = []\<rparr>"

text \<open>Guild 111 with two counters in one category, one of them out of date.\<close>

definition two_counters :: bot_state where
  "two_counters = \<lparr>counterConfigs =
       [(''111'', JArr [config_json \<lparr>channelId = ''501'', type = ''members'', categoryId = ''500''\<rparr>,
                        config_json \<lparr>channelId = ''502'', type = ''bots'', categoryId = ''500''\<rparr>])],
     guilds = [(''111'', \<lparr>g_name = ''Guild'', channels =
       [(''500'', \<lparr>ch_name = ''Stats'', ch_type = GuildCategory, ch_parent = None\<rparr>),
        (''501'', \<lparr>ch_name = ''Total Members: 0'', ch_type = GuildVoice, ch_parent = Some ''500''\<rparr>),
        (''502'', \<lparr>ch_name = ''Total Bots: 1'', ch_type = GuildVoice, ch_parent = Some ''500''\<rparr>)]\<rparr>)],
     CONFIG_FILE = Missing, requests = []\<rparr>"

text \<open>Guild 111 with two counters, the second of them out of date.\<close>

definition late_counter :: bot_state where
  "late_counter = \<lparr>counterConfigs =
       [(''111'', JArr [config_json \<lparr>channelId = ''501'', type = ''members'', categoryId = ''500''\<rparr>,
                        config_json \<lparr>channelId = ''502'', type = ''bots'', categoryId = ''500''\<rparr>])],
     guilds = [(''111'', \<lparr>g_name = ''Guild'', channels =
       [(''500'', \<lparr>ch_name = ''Stats'', ch_type = GuildCategory, ch_parent = None\<rparr>),
        (''501'', \<lparr>ch_name = ''Total Members: 2'', ch_type = GuildVoice, ch_parent = Some ''500''\<rparr>),
        (''502'', \<lparr>ch_name = ''Total Bots: 0'', ch_type = GuildVoice, ch_parent = Some ''500''\<rparr>)]\<rparr>)],
     CONFIG_FILE = Missing, requests = []\<rparr>"

text \<open>Guild 111 with two configurations, of different kinds, for the same channel.\<close>

definition twice_named :: bot_state where
  "twice_named = \<lparr>counterConfigs =
       [(''111'', JArr [config_json \<lparr>channelId = ''501'', type = ''members'', categoryId = ''500''\<rparr>,
                        config_json \<lparr>channelId = ''501'', type = ''bots'', categoryId = ''500''\<rparr>])],
     guilds = [(''111'', \<lparr>g_name = ''Guild'', channels =
       [(''500'', \<lparr>ch_name = ''Stats'', ch_type = GuildCategory, ch_parent = None\<rparr>),
        (''501'', \<lparr>ch_name = ''Total Members: 0'', ch_type = GuildVoice, ch_parent = Some ''500''\<rparr>)]\<rparr>)],
     CONFIG_FILE = Missing, requests = []\<rparr>"

text \<open>Guild 111 with three counters in one category.\<close>

definition three_counters :: bot_state where
  "three_counters = \<lparr>counterConfigs =
       [(''111'', JArr [config_json \<lparr>channelId = ''501'', type = ''members'', categoryId = ''500''\<rparr>,
                        config_json \<lparr>channelId = ''502'', type = ''bots'', categoryId = ''500''\<rparr>,
                        config_json \<lparr>channelId = ''503'', type = ''roles'', categoryId = ''500''\<rparr>])],
     guilds = [(''111'', \<lparr>g_name = ''Guild'', channels =
       [(''500'', \<lparr>ch_name = ''Stats'', ch_type = GuildCategory, ch_parent = None\<rparr>),
        (''501'', \<lparr>ch_name = ''Total Members: 2'', ch_type = GuildVoice, ch_parent = Some ''500''\<rparr>),
        (''502'', \<lparr>ch_name = ''Total Bots: 1'', ch_type = GuildVoice, ch_parent = Some ''500''\<rparr>),
        (''503'', \<lparr>ch_name = ''Members with Roles: 1'', ch_type = GuildVoice, ch_parent = Some ''500''\<rparr>)]\<rparr>)],
     CONFIG_FILE = Missing, requests = []\<rparr>"

text \<open>Guild 111 with one counter whose channel was moved out of its category, which is
  left without a child.\<close>

definition moved_counter :: bot_state where
  "moved_counter = \<lparr>counterConfigs =
       [(''111'', JArr [config_json \<lparr>channelId = ''501'', type = ''members'', categoryId = ''500''\<rparr>])],
     guilds = [(''111'', \<lparr>g_name = ''Guild'', channels =
       [(''500'', \<lparr>ch_name = ''Stats'', ch_type = GuildCategory, ch_parent = None\<rparr>),
        (''501'', \<lparr>ch_name = ''Total Members: 2'', ch_type = GuildVoice, ch_parent = None\<rparr>)]\<rparr>)],
     CONFIG_FILE = Missing, requests = []\<rparr>"

section \<open>Properties of the evaluator\<close>

lemma size_filter_bounds: "0 \<le> size_filter p ms \<and> size_filter p ms \<le> int (length ms)"
  by (simp add: size_filter_def)

lemma size_filter_split:
  "\<forall>m\<in>set ms. p m \<longrightarrow> (q m \<noteq> r m) \<Longrightarrow>
   size_filter (\<lambda>m. p m \<and> q m) ms + size_filter (\<lambda>m. p m \<and> r m) ms = size_filter p ms"
  by (induction ms) (auto simp: size_filter_def)

lemma known_status_online_xor_offline:
  "presence m \<in> {None, Some ''online'', Some ''idle'', Some ''dnd'', Some ''offline''} \<Longrightarrow>
   is_online m \<noteq> is_offline m"
  by (auto simp: is_online_def is_offline_def)

lemma countForType_bounds: "0 \<le> countForType k ms \<and> countForType k ms \<le> int (length ms)"
  unfolding countForType_def using size_filter_bounds by simp

lemma members_plus_bots: "countForType ''members'' ms + countForType ''bots'' ms = int (length ms)"
  unfolding countForType_def size_filter_def
  by (simp add: sum_length_filter_compl add.commute flip: of_nat_add)

text \<open>
  Claim C2. For a membership snapshot whose members all have a presence status among
  online, idle, dnd, offline, or no presence at all: the count of every kind (also of an
  unknown kind) lies between 0 and the snapshot size; members plus bots is the snapshot
  size; online members plus offline members is members; online bots plus offline bots is
  bots.
\<close>

theorem countForType_partition:
  assumes "\<forall>m\<in>set ms. presence m \<in> {None, Some ''online'', Some ''idle'', Some ''dnd'', Some ''offline''}"
  shows "0 \<le> countForType k ms \<and> countForType k ms \<le> int (length ms)
     \<and> countForType ''members'' ms + countForType ''bots'' ms = int (length ms)
     \<and> countForType ''online-members'' ms + countForType ''offline-members'' ms
         = countForType ''members'' ms
     \<and> countForType ''online-bots'' ms + countForType ''offline-bots'' ms
         = countForType ''bots'' ms"
proof -
  have split: "\<forall>m\<in>set ms. p m \<longrightarrow> (is_online m \<noteq> is_offline m)" for p :: "member \<Rightarrow> bool"
    using assms known_status_online_xor_offline by blast
  have humans: "countForType ''online-members'' ms + countForType ''offline-members'' ms
      = countForType ''members'' ms"
    unfolding countForType_def using size_filter_split [OF split [of "\<lambda>m. \<not> bot m"]] by simp
  have bots: "countForType ''online-bots'' ms + countForType ''offline-bots'' ms
      = countForType ''bots'' ms"
    unfolding countForType_def using size_filter_split [OF split [of "\<lambda>m. bot m"]] by simp
  show ?thesis
    using countForType_bounds [of k ms] members_plus_bots [of ms] humans bots by simp
qed

theorem countForType_partition_witness:
  "countForType ''roles'' three_members = 1
   \<and> countForType ''online-members'' three_members
       + countForType ''offline-members'' three_members = 2
   \<and> countForType ''online-bots'' three_members
       + countForType ''offline-bots'' three_members = 1"
  using countForType_partition [of three_members "''roles''"]
  by (simp add: three_members_def countForType_def size_filter_def is_online_def is_offline_def)

section \<open>Properties of the snapshot codec\<close>

lemma update_fresh: "k \<notin> fst ` set al \<Longrightarrow> AList.update k v al = al @ [(k, v)]"
  by (induction al) auto

lemma load_entries_keys:
  "k \<in> fst ` set (snd (load_entries es m)) \<Longrightarrow> k \<in> fst ` set m \<or> k \<in> fst ` set es"
proof (induction es m rule: load_entries.induct)
  case (1 m)
  then show ?case by simp
next
  case (2 guildId guildData rest m)
  show ?case
  proof (cases "isArray guildData")
    case True
    with 2 show ?thesis by (auto simp: Map_set_def dom_update)
  next
    case False
    with 2 show ?thesis
      by (cases "property guildData ''configs''")
         (auto simp: Map_set_def dom_update split: option.splits if_splits)
  qed
qed

lemma load_entries_new_shape:
  "distinct (map fst m) \<Longrightarrow> \<forall>v\<in>snd ` set m. truthy v \<Longrightarrow> fst ` set acc \<inter> fst ` set m = {} \<Longrightarrow>
   load_entries (map (new_shape label) m) acc = (None, acc @ m)"
proof (induction m arbitrary: acc)
  case Nil
  then show ?case by simp
next
  case (Cons p m)
  obtain g v where p: "p = (g, v)" by (cases p)
  from Cons.prems p have fresh: "g \<notin> fst ` set acc" and tv: "truthy v" by auto
  have step: "load_entries (map (new_shape label) (p # m)) acc
      = load_entries (map (new_shape label) m) (acc @ [(g, v)])"
    using tv fresh by (simp add: p new_shape_def Map_set_def update_fresh)
  have "load_entries (map (new_shape label) m) (acc @ [(g, v)]) = (None, (acc @ [(g, v)]) @ m)"
    using Cons.prems p by (intro Cons.IH) auto
  with step show ?case by (simp add: p)
qed

lemma configData_entries:
  "property (configData gs m) ''counterConfigs''
     = Inr (Some (JObj (map (new_shape (serverName gs)) m)))"
  by (simp add: configData_def new_shape_def)

lemma loadConfigs_configData:
  assumes "distinct (map fst m)" and "\<forall>v\<in>snd ` set m. truthy v"
    and "CONFIG_FILE t = Document (configData gs m)"
  shows "loadConfigs t = (None, t\<lparr>counterConfigs := m\<rparr>)"
  using load_entries_new_shape [OF assms(1,2), of "[]" "serverName gs"] assms(3)
  by (simp add: loadConfigs_def configData_entries)

text \<open>What \<^verbatim>\<open>saveConfigs\<close> leaves in the file when the write succeeds.\<close>

lemma saveConfigs_file:
  "accepts P (requests s) (WriteFile (configData (guilds s) (counterConfigs s))) \<Longrightarrow>
   CONFIG_FILE (saveConfigs P s) = Document (configData (guilds s) (counterConfigs s))"
  by (simp add: saveConfigs_def send_def Let_def)

text \<open>Saving and loading again, when the write succeeds, gives back the store and changes
  nothing else of the state that the save left.\<close>

lemma save_then_load:
  assumes "distinct (map fst (counterConfigs s))" and "\<forall>v\<in>snd ` set (counterConfigs s). truthy v"
    and "accepts P (requests s) (WriteFile (configData (guilds s) (counterConfigs s)))"
  shows "loadConfigs (saveConfigs P s) = (None, saveConfigs P s)"
proof -
  have "counterConfigs (saveConfigs P s) = counterConfigs s"
    by (simp add: saveConfigs_def send_def Let_def split: bool.splits)
  then have "saveConfigs P s = (saveConfigs P s)\<lparr>counterConfigs := counterConfigs s\<rparr>"
    by (metis bot_state.surjective bot_state.update_convs(1))
  then show ?thesis
    using loadConfigs_configData [OF assms(1,2) saveConfigs_file [OF assms(3)]] by simp
qed

text \<open>
  Claim C3. Take a store (a \<^verbatim>\<open>Map\<close>: distinct keys) whose values are truthy, as
  every array is, and the document \<^verbatim>\<open>saveConfigs\<close> builds from it with any guild
  cache for the labels, also one that knows none of the guilds (the label is then
  \<^verbatim>\<open>Unknown Server\<close>). Loading that document reports no error and gives a store
  with the same guilds and, for each guild, the same value, hence the same sequence of
  configurations; and the store loaded does not depend on the guild cache the labels came
  from.
\<close>

theorem save_load_roundtrip:
  assumes "distinct (map fst m)" and "\<forall>v\<in>snd ` set m. truthy v"
    and "CONFIG_FILE t = Document (configData gs m)"
  shows "fst (loadConfigs t) = None
     \<and> fst ` set (counterConfigs (snd (loadConfigs t))) = fst ` set m
     \<and> (\<forall>guildId. Map_get (counterConfigs (snd (loadConfigs t))) guildId = Map_get m guildId)
     \<and> (\<forall>gs'. counterConfigs (snd (loadConfigs (t\<lparr>CONFIG_FILE := Document (configData gs' m)\<rparr>)))
              = counterConfigs (snd (loadConfigs t)))"
proof -
  have here: "loadConfigs t = (None, t\<lparr>counterConfigs := m\<rparr>)"
    using assms by (rule loadConfigs_configData)
  have there: "loadConfigs (t\<lparr>CONFIG_FILE := Document (configData gs' m)\<rparr>)
      = (None, t\<lparr>CONFIG_FILE := Document (configData gs' m), counterConfigs := m\<rparr>)" for gs'
    using assms(1,2) by (rule loadConfigs_configData) simp
  show ?thesis by (simp add: here there)
qed

theorem save_load_roundtrip_witness:
  "loadConfigs \<lparr>counterConfigs = [], guilds = [],
      CONFIG_FILE = Document (configData []
        [(''111'', JArr [config_json \<lparr>channelId = ''501'', type = ''bots'', categoryId = ''500''\<rparr>]),
         (''222'', JArr [])]),
      requests = []\<rparr>
   = (None, \<lparr>counterConfigs =
        [(''111'', JArr [config_json \<lparr>channelId = ''501'', type = ''bots'', categoryId = ''500''\<rparr>]),
         (''222'', JArr [])],
      guilds = [],
      CONFIG_FILE = Document (JObj [(''counterConfigs'', JObj
        [(''111'', JObj [(''serverName'', JStr ''Unknown Server''),
            (''configs'', JArr [config_json \<lparr>channelId = ''501'', type = ''bots'', categoryId = ''500''\<rparr>])]),
         (''222'', JObj [(''serverName'', JStr ''Unknown Server''), (''configs'', JArr [])])])]),
      requests = []\<rparr>)"
  using save_load_roundtrip [of
      "[(''111'', JArr [config_json \<lparr>channelId = ''501'', type = ''bots'', categoryId = ''500''\<rparr>]),
        (''222'', JArr [])]"
      "\<lparr>counterConfigs = [], guilds = [],
        CONFIG_FILE = Document (configData []
          [(''111'', JArr [config_json \<lparr>channelId = ''501'', type = ''bots'', categoryId = ''500''\<rparr>]),
           (''222'', JArr [])]),
        requests = []\<rparr>" "[]"]
  by (simp add: loadConfigs_def configData_def serverName_def Map_set_def)

text \<open>The two shapes load alike: an entry in the legacy shape and the same entry in the
  new shape, under any label, put the same value into the store.\<close>

lemma legacy_and_new_shape_load_alike:
  "\<forall>v\<in>snd ` set es. isArray v \<Longrightarrow>
   load_entries (map legacy_shape es) m = load_entries (map (new_shape label) es) m"
proof (induction es arbitrary: m)
  case Nil
  then show ?case by simp
next
  case (Cons p es)
  obtain g v where p: "p = (g, v)" by (cases p)
  with Cons.prems obtain xs where v: "v = JArr xs" by (cases v) auto
  from Cons show ?case by (simp add: p v legacy_shape_def new_shape_def)
qed

text \<open>An entry that is neither an array nor an object with truthy \<^verbatim>\<open>configs\<close> is
  passed over, provided it is not \<^verbatim>\<open>null\<close>.\<close>

lemma other_entry_skipped:
  "\<not> isArray d \<Longrightarrow> d \<noteq> JNull \<Longrightarrow>
   (case property d ''configs'' of Inr (Some c) \<Rightarrow> \<not> truthy c | _ \<Rightarrow> True) \<Longrightarrow>
   load_entries ((g, d) # rest) m = load_entries rest m"
  by (cases d) (auto split: option.splits)

text \<open>
  Claim C4. The claim says an entry of the document that has neither shape is skipped
  without error. A \<^verbatim>\<open>null\<close> entry is not: \<^verbatim>\<open>guildData.configs\<close> (line 77)
  throws on it, the \<^verbatim>\<open>catch\<close> of line 87 ends the load, and the entries after it
  are never read, while the store was already cleared. Here the document maps guild 111
  to \<^verbatim>\<open>null\<close> and guild 222 to one configuration in the legacy shape; the store
  held guild 999 before. The load reports the error and leaves the store empty:
  guild 222 is lost with the skipped one.
\<close>

theorem loadConfigs_null_entry_ends_load:
  "loadConfigs \<lparr>counterConfigs = [(''999'', JArr [])], guilds = [],
      CONFIG_FILE = Document (JObj [(''counterConfigs'', JObj
        [(''111'', JNull),
         (''222'', JArr [config_json \<lparr>channelId = ''501'', type = ''bots'', categoryId = ''500''\<rparr>])])]),
      requests = []\<rparr>
   = (Some TypeError, \<lparr>counterConfigs = [], guilds = [],
      CONFIG_FILE = Document (JObj [(''counterConfigs'', JObj
        [(''111'', JNull),
         (''222'', JArr [config_json \<lparr>channelId = ''501'', type = ''bots'', categoryId = ''500''\<rparr>])])]),
      requests = []\<rparr>)"
  by (simp add: loadConfigs_def)

text \<open>
  Claim C10. When the file holds a document whose \<^verbatim>\<open>counterConfigs\<close> is truthy (a
  mapping is), the load replaces the store: a guild that the mapping does not name is
  not in the store afterwards, whatever the store held; two states with the same file
  load the same store, whatever they held; and loading again changes nothing and gives
  the same report.
\<close>

theorem loadConfigs_replaces_store:
  assumes "CONFIG_FILE s = Document data"
    and "property data ''counterConfigs'' = Inr (Some cc)" and "truthy cc"
  shows "(\<forall>guildId. guildId \<notin> fst ` set (Object_entries cc)
            \<longrightarrow> Map_get (counterConfigs (snd (loadConfigs s))) guildId = None)
     \<and> (\<forall>t. CONFIG_FILE t = CONFIG_FILE s
            \<longrightarrow> counterConfigs (snd (loadConfigs t)) = counterConfigs (snd (loadConfigs s)))
     \<and> loadConfigs (snd (loadConfigs s)) = loadConfigs s"
proof -
  obtain e m where lm: "load_entries (Object_entries cc) [] = (e, m)"
    by (cases "load_entries (Object_entries cc) []")
  have run: "loadConfigs t = (e, t\<lparr>counterConfigs := m\<rparr>)" if "CONFIG_FILE t = CONFIG_FILE s" for t
    using that assms lm by (simp add: loadConfigs_def)
  have absent: "Map_get m g = None" if "g \<notin> fst ` set (Object_entries cc)" for g
  proof -
    have "g \<notin> fst ` set m"
      using load_entries_keys [of g "Object_entries cc" "[]"] that lm by auto
    then show ?thesis by (simp add: Map_get_def map_of_eq_None_iff)
  qed
  have again: "loadConfigs (s\<lparr>counterConfigs := m\<rparr>) = (e, s\<lparr>counterConfigs := m\<rparr>)"
    using run [of "s\<lparr>counterConfigs := m\<rparr>"] by simp
  show ?thesis
    using absent again by (simp add: run)
qed

theorem loadConfigs_replaces_store_witness:
  "Map_get (counterConfigs (snd (loadConfigs
      \<lparr>counterConfigs = [(''999'', JArr [])], guilds = [],
        CONFIG_FILE = Document (JObj [(''counterConfigs'', JObj [(''111'', JArr [])])]),
        requests = []\<rparr>))) ''999'' = None
   \<and> Map_get (counterConfigs (snd (loadConfigs
      \<lparr>counterConfigs = [(''999'', JArr [])], guilds = [],
        CONFIG_FILE = Document (JObj [(''counterConfigs'', JObj [(''111'', JArr [])])]),
        requests = []\<rparr>))) ''111'' = Some (JArr [])"
  using loadConfigs_replaces_store [of
      "\<lparr>counterConfigs = [(''999'', JArr [])], guilds = [],
        CONFIG_FILE = Document (JObj [(''counterConfigs'', JObj [(''111'', JArr [])])]),
        requests = []\<rparr>"
      "JObj [(''counterConfigs'', JObj [(''111'', JArr [])])]"
      "JObj [(''111'', JArr [])]"]
  by (simp add: loadConfigs_def Map_get_def Map_set_def)

section \<open>The state between calls\<close>

lemma send_fields [simp]:
  "requests (snd (send P r s)) = requests s @ [r]"
  "counterConfigs (snd (send P r s)) = counterConfigs s"
  "CONFIG_FILE (snd (send P r s)) = CONFIG_FILE s"
  "guilds (snd (send P r s)) = guilds s"
  "fst (send P r s) = accepts P (requests s) r"
  by (simp_all add: send_def)

lemma set_guild_channels_fields [simp]:
  "counterConfigs (set_guild_channels g chs s) = counterConfigs s"
  "CONFIG_FILE (set_guild_channels g chs s) = CONFIG_FILE s"
  "requests (set_guild_channels g chs s) = requests s"
  by (simp_all add: set_guild_channels_def)

lemma guild_channels_guilds: "guilds t = guilds s \<Longrightarrow> guild_channels t g = guild_channels s g"
  by (simp add: guild_channels_def)

lemma guild_channels_send [simp]: "guild_channels (snd (send P r s)) g = guild_channels s g"
  by (simp add: guild_channels_def)

lemma map_of_guilds_set:
  "map_of (guilds (set_guild_channels g chs s)) g'
     = map_option (\<lambda>gd. if g' = g then gd\<lparr>channels := chs\<rparr> else gd) (map_of (guilds s) g')"
proof -
  have "map_of (map (\<lambda>(k, gd). if k = g then (k, gd\<lparr>channels := chs\<rparr>) else (k, gd)) gs) g'
      = map_option (\<lambda>gd. if g' = g then gd\<lparr>channels := chs\<rparr> else gd) (map_of gs g')" for gs
    by (induction gs) auto
  then show ?thesis by (simp add: set_guild_channels_def)
qed

lemma guild_channels_set:
  "guild_channels (set_guild_channels g chs s) g'
     = (if g' = g \<and> map_of (guilds s) g \<noteq> None then chs else guild_channels s g')"
  by (auto simp: guild_channels_def map_of_guilds_set split: option.splits)

lemma guild_channels_uncached: "map_of (guilds s) g = None \<Longrightarrow> guild_channels s g = []"
  by (simp add: guild_channels_def)

lemma map_of_rename:
  "map_of (map (\<lambda>(k, c). if k = cid then (k, c\<lparr>ch_name := n\<rparr>) else (k, c)) chs) k'
     = map_option (\<lambda>c. if k' = cid then c\<lparr>ch_name := n\<rparr> else c) (map_of chs k')"
  by (induction chs) auto

lemma config_json_props [simp]:
  "property (config_json c) ''channelId'' = Inr (Some (JStr (channelId c)))"
  "property (config_json c) ''type'' = Inr (Some (JStr (type c)))"
  "property (config_json c) ''categoryId'' = Inr (Some (JStr (categoryId c)))"
  by (simp_all add: config_json_def)

lemma saveConfigs_fields [simp]:
  "requests (saveConfigs P s) = requests s @ [WriteFile (configData (guilds s) (counterConfigs s))]"
  "counterConfigs (saveConfigs P s) = counterConfigs s"
  "guilds (saveConfigs P s) = guilds s"
  by (simp_all add: saveConfigs_def Let_def send_def bool.case_eq_if)

lemma show_nat_digit: "n < 10 \<Longrightarrow> show_nat n = [digit n]"
  by (simp add: show_nat.simps)

section \<open>The reconcile pass reads the store\<close>

lemma setName_store [simp]: "counterConfigs (snd (setName P g c n s)) = counterConfigs s"
  by (simp add: setName_def Let_def case_prod_beta split: bool.splits)

lemma getCountForType_store [simp]:
  "counterConfigs (snd (getCountForType P g t s)) = counterConfigs s"
  by (simp add: getCountForType_def case_prod_beta split: bool.splits)

lemma update_counter_store [simp]:
  "counterConfigs (snd (update_counter P g config s)) = counterConfigs s"
  by (simp add: update_counter_def case_prod_beta Let_def split: sum.splits option.splits)

lemma update_loop_store [simp]:
  "counterConfigs (snd (update_loop P g cs s)) = counterConfigs s"
  by (induction cs arbitrary: s)
     (simp_all add: case_prod_beta split: sum.splits option.splits)

lemma update_guilds_store [simp]:
  "counterConfigs (snd (update_guilds P m s)) = counterConfigs s"
  by (induction m arbitrary: s)
     (auto simp: case_prod_beta split: sum.splits option.splits)

text \<open>
  Claim C9. A reconcile pass, the full sweep \<^verbatim>\<open>updateAllCounters\<close> or the sweep
  of one guild \<^verbatim>\<open>updateGuildCounters\<close>, leaves the configuration store as it
  found it, whatever the platform answers and also when the pass ends early: every guild
  maps to the value it had. A configuration whose channel is not in the guild's cache is
  passed over: the step makes no call and changes nothing, so the configuration stays
  in the store.
\<close>

theorem reconcile_keeps_store:
  "counterConfigs (snd (updateAllCounters P s)) = counterConfigs s
   \<and> counterConfigs (snd (updateGuildCounters P guildId s)) = counterConfigs s
   \<and> (\<forall>config key. property config ''channelId'' = Inr key
         \<and> cache_get (guild_channels s guildId) key = None
         \<longrightarrow> update_counter P guildId config s = (None, s))"
  by (simp add: updateAllCounters_def updateGuildCounters_def update_counter_def
      split: option.splits sum.splits)

theorem reconcile_keeps_store_witness:
  "updateAllCounters obliging stale_counter = (None, stale_counter)
   \<and> update_counter obliging ''111''
        (config_json \<lparr>channelId = ''501'', type = ''members'', categoryId = ''500''\<rparr>)
        stale_counter = (None, stale_counter)"
  using reconcile_keeps_store [of obliging stale_counter "''111''"]
  by (simp add: stale_counter_def updateAllCounters_def update_counter_def cache_get_def
      guild_channels_def config_json_def)

section \<open>The reconcile pass renames on change\<close>

text \<open>One step of the pass on a configuration as the setup writes it, when the fetch
  succeeds.\<close>

lemma update_counter_config:
  assumes "accepts P (requests s) (MembersFetch g)"
  shows "update_counter P g (config_json c) s =
     (case map_of (guild_channels s g) (channelId c) of
        None \<Rightarrow> (None, s)
      | Some ch \<Rightarrow>
          if ch_name ch \<noteq> target_name (fetched P (requests s) g) c
          then setName P g (channelId c) (target_name (fetched P (requests s) g) c)
                 (snd (send P (MembersFetch g) s))
          else (None, snd (send P (MembersFetch g) s)))"
  using assms
  by (simp add: update_counter_def cache_get_def getCountForType_def case_prod_beta Let_def
      target_name_def switch_type_def ToPropertyKey_def split: option.splits)

lemma setName_eq:
  "setName P g cid n s =
     (if accepts P (requests s) (ChannelSetName g cid n)
      then (None, set_guild_channels g
              (map (\<lambda>(k, c). if k = cid then (k, c\<lparr>ch_name := n\<rparr>) else (k, c))
                 (guild_channels s g)) (s\<lparr>requests := requests s @ [ChannelSetName g cid n]\<rparr>))
      else (Some (Rejected (ChannelSetName g cid n)),
            s\<lparr>requests := requests s @ [ChannelSetName g cid n]\<rparr>))"
  by (simp add: setName_def Let_def send_def bool.case_eq_if guild_channels_def)

lemma setName_channels:
  "accepts P (requests s) (ChannelSetName g cid n) \<Longrightarrow>
   map_of (guild_channels (snd (setName P g cid n s)) g) k
     = map_option (\<lambda>c. if k = cid then c\<lparr>ch_name := n\<rparr> else c) (map_of (guild_channels s g) k)"
  by (cases "map_of (guilds s) g")
     (simp_all add: setName_eq guild_channels_set map_of_rename guild_channels_uncached
        guild_channels_guilds [of "s\<lparr>requests := r\<rparr>" s for r])

lemma setName_rejected:
  "\<not> accepts P (requests s) (ChannelSetName g cid n) \<Longrightarrow>
   guilds (snd (setName P g cid n s)) = guilds s"
  by (simp add: setName_eq)

lemma setName_requests [simp]:
  "requests (snd (setName P g cid n s)) = requests s @ [ChannelSetName g cid n]"
  by (simp add: setName_eq)

lemma setName_other_guild:
  "g' \<noteq> g \<Longrightarrow> guild_channels (snd (setName P g cid n s)) g' = guild_channels s g'"
  by (simp add: setName_eq guild_channels_set guild_channels_guilds [of "s\<lparr>requests := r\<rparr>" s for r])

lemma update_counter_other_channel:
  "k \<noteq> channelId c \<Longrightarrow>
   map_of (guild_channels (snd (update_counter P g (config_json c) s)) g) k
     = map_of (guild_channels s g) k"
proof (cases "accepts P (requests s) (MembersFetch g)")
  case False
  then show ?thesis
    by (simp add: update_counter_def cache_get_def getCountForType_def case_prod_beta
        split: option.splits)
next
  case True
  assume k: "k \<noteq> channelId c"
  show ?thesis
  proof (cases "map_of (guild_channels s g) (channelId c)")
    case None
    then show ?thesis by (simp add: update_counter_config [OF True])
  next
    case (Some ch)
    let ?s1 = "snd (send P (MembersFetch g) s)"
    let ?n = "target_name (fetched P (requests s) g) c"
    have "map_of (guild_channels (snd (setName P g (channelId c) ?n ?s1)) g) k
        = map_of (guild_channels s g) k"
    proof (cases "accepts P (requests ?s1) (ChannelSetName g (channelId c) ?n)")
      case True
      then show ?thesis using k by (simp add: setName_channels map_option.identity [unfolded id_def])
    next
      case False
      then show ?thesis
        using guild_channels_guilds [OF setName_rejected [OF False], of g] by simp
    qed
    then show ?thesis using Some by (simp add: update_counter_config [OF True])
  qed
qed

lemma update_loop_other_channel:
  "k \<notin> channelId ` set cfgs \<Longrightarrow>
   map_of (guild_channels (snd (update_loop P g (map config_json cfgs) s)) g) k
     = map_of (guild_channels s g) k"
proof (induction cfgs arbitrary: s)
  case Nil
  then show ?case by simp
next
  case (Cons c cfgs)
  then show ?case
    by (auto simp: case_prod_beta update_counter_other_channel split: option.splits)
qed

text \<open>After a pass over configurations with distinct channels, on a platform whose
  membership is steady and which accepts the renames, every cached channel carries its
  target name.\<close>

lemma update_loop_settles:
  assumes "steady P" and "renaming P"
  shows "distinct (map channelId cfgs) \<Longrightarrow>
    settled (guild_channels (snd (update_loop P g (map config_json cfgs) s)) g)
      (fetched P [] g) cfgs"
proof (induction cfgs arbitrary: s)
  case Nil
  then show ?case by (simp add: settled_def)
next
  case (Cons c cfgs)
  let ?ms = "fetched P [] g"
  let ?s1 = "snd (update_counter P g (config_json c) s)"
  have fetch: "accepts P (requests s) (MembersFetch g)" and ms: "fetched P (requests s) g = ?ms"
    using assms(1) by (auto simp: steady_def)
  have ren: "accepts P h (ChannelSetName g (channelId c) n)" for h n
    using assms(2) by (simp add: renaming_def)
  have first: "case map_of (guild_channels ?s1 g) (channelId c) of None \<Rightarrow> True
      | Some ch \<Rightarrow> ch_name ch = target_name ?ms c"
    by (cases "map_of (guild_channels s g) (channelId c)")
       (simp_all add: update_counter_config [OF fetch] ms setName_channels [OF ren])
  have loop: "update_loop P g (map config_json (c # cfgs)) s
      = update_loop P g (map config_json cfgs) ?s1"
    by (simp add: case_prod_beta split: option.splits)
  have kept: "map_of (guild_channels (snd (update_loop P g (map config_json cfgs) ?s1)) g) (channelId c)
      = map_of (guild_channels ?s1 g) (channelId c)"
    using Cons.prems by (intro update_loop_other_channel) auto
  have rest: "settled (guild_channels (snd (update_loop P g (map config_json cfgs) ?s1)) g) ?ms cfgs"
    using Cons.prems by (intro Cons.IH) simp
  show ?case
    unfolding loop using first kept rest by (simp add: settled_def)
qed

text \<open>A pass over configurations whose channels carry their target names makes no rename
  and changes nothing but the list of calls.\<close>

lemma update_loop_settled_quiet:
  assumes "steady P"
  shows "settled (guild_channels s g) (fetched P [] g) cfgs \<Longrightarrow>
    \<exists>rs. update_loop P g (map config_json cfgs) s = (None, s\<lparr>requests := requests s @ rs\<rparr>)
       \<and> filter is_rename rs = []"
proof (induction cfgs arbitrary: s)
  case Nil
  show ?case by (rule exI [of _ "[]"]) simp
next
  case (Cons c cfgs)
  let ?ms = "fetched P [] g"
  have fetch: "accepts P (requests s) (MembersFetch g)" and ms: "fetched P (requests s) g = ?ms"
    using assms(1) by (auto simp: steady_def)
  from Cons.prems have here: "case map_of (guild_channels s g) (channelId c) of None \<Rightarrow> True
      | Some ch \<Rightarrow> ch_name ch = target_name ?ms c"
    and there: "settled (guild_channels s g) ?ms cfgs"
    by (simp_all add: settled_def)
  obtain r1 where step: "update_counter P g (config_json c) s = (None, s\<lparr>requests := requests s @ r1\<rparr>)"
    and r1: "filter is_rename r1 = []"
  proof (cases "map_of (guild_channels s g) (channelId c)")
    case None
    then have "update_counter P g (config_json c) s = (None, s\<lparr>requests := requests s @ []\<rparr>)"
      by (simp add: update_counter_config [OF fetch])
    then show ?thesis using that [of "[]"] by simp
  next
    case (Some ch)
    with here have "update_counter P g (config_json c) s
        = (None, s\<lparr>requests := requests s @ [MembersFetch g]\<rparr>)"
      by (simp add: update_counter_config [OF fetch] ms send_def)
    then show ?thesis using that [of "[MembersFetch g]"] by simp
  qed
  let ?s1 = "s\<lparr>requests := requests s @ r1\<rparr>"
  have "settled (guild_channels ?s1 g) ?ms cfgs"
    using there guild_channels_guilds [of ?s1 s g] by simp
  from Cons.IH [OF this] obtain r2 where
    loop: "update_loop P g (map config_json cfgs) ?s1 = (None, ?s1\<lparr>requests := requests ?s1 @ r2\<rparr>)"
    and r2: "filter is_rename r2 = []" by blast
  have "update_loop P g (map config_json (c # cfgs)) s = (None, s\<lparr>requests := requests s @ (r1 @ r2)\<rparr>)"
    using step loop by simp
  moreover have "filter is_rename (r1 @ r2) = []" using r1 r2 by simp
  ultimately show ?case by blast
qed

lemma getCountForType_guilds [simp]:
  "guilds (snd (getCountForType P g t s)) = guilds s"
  by (simp add: getCountForType_def case_prod_beta bool.case_eq_if send_def)

lemma setName_cached:
  "(map_of (guilds (snd (setName P g cid n s))) g' = None) = (map_of (guilds s) g' = None)"
  by (simp add: setName_eq map_of_guilds_set)

lemma update_counter_other_guild:
  "g' \<noteq> g \<Longrightarrow> guild_channels (snd (update_counter P g config s)) g' = guild_channels s g'"
  by (simp add: update_counter_def case_prod_beta Let_def setName_other_guild
      guild_channels_guilds [of "snd (getCountForType P g t s)" s for t]
      split: sum.splits option.splits)

lemma update_counter_cached:
  "(map_of (guilds (snd (update_counter P g config s))) g' = None) = (map_of (guilds s) g' = None)"
  by (simp add: update_counter_def case_prod_beta Let_def setName_cached
      split: sum.splits option.splits)

lemma update_loop_other_guild:
  "g' \<noteq> g \<Longrightarrow> guild_channels (snd (update_loop P g cs s)) g' = guild_channels s g'"
  by (induction cs arbitrary: s)
     (simp_all add: case_prod_beta update_counter_other_guild split: sum.splits option.splits)

lemma update_loop_cached:
  "(map_of (guilds (snd (update_loop P g cs s))) g' = None) = (map_of (guilds s) g' = None)"
  by (induction cs arbitrary: s)
     (simp_all add: case_prod_beta update_counter_cached split: sum.splits option.splits)

lemma update_guilds_other_guild:
  "g \<notin> fst ` set m \<Longrightarrow> guild_channels (snd (update_guilds P m s)) g = guild_channels s g"
  by (induction m arbitrary: s)
     (auto simp: case_prod_beta update_loop_other_guild split: sum.splits option.splits)

lemma update_guilds_cached:
  "(map_of (guilds (snd (update_guilds P m s))) g = None) = (map_of (guilds s) g = None)"
proof (induction m arbitrary: s)
  case Nil
  show ?case by simp
next
  case (Cons p m)
  obtain g' v where p: "p = (g', v)" by (cases p)
  show ?case
  proof (cases "map_of (guilds s) g'")
    case None
    then show ?thesis using Cons.IH by (simp add: p)
  next
    case (Some gd)
    show ?thesis
    proof (cases "for_of v")
      case (Inl e)
      then show ?thesis using Some by (simp add: p)
    next
      case (Inr cs)
      show ?thesis
      proof (cases "fst (update_loop P g' cs s)")
        case None
        then show ?thesis
          using Some Inr Cons.IH [of "snd (update_loop P g' cs s)"]
          by (simp add: p case_prod_beta update_loop_cached)
      next
        case (Some e)
        then show ?thesis
          using \<open>map_of (guilds s) g' = Some gd\<close> Inr
          by (simp add: p case_prod_beta update_loop_cached)
      qed
    qed
  qed
qed

lemma update_loop_config_no_error: "fst (update_loop P g (map config_json cfgs) s) = None"
  by (induction cfgs arbitrary: s) (simp_all add: case_prod_beta split: option.splits)

lemma store_of_keys: "fst ` set (store_of tm) = fst ` set tm"
  by (induction tm) (auto simp: store_of_def)

lemma update_guilds_settles:
  assumes "steady P" and "renaming P"
  shows "distinct (map fst tm) \<Longrightarrow> \<forall>(g, cfgs)\<in>set tm. distinct (map channelId cfgs) \<Longrightarrow>
    \<forall>(g, cfgs)\<in>set tm.
       settled (guild_channels (snd (update_guilds P (store_of tm) s)) g) (fetched P [] g) cfgs"
proof (induction tm arbitrary: s)
  case Nil
  then show ?case by simp
next
  case (Cons p tm)
  obtain g cfgs where p: "p = (g, cfgs)" by (cases p)
  from Cons.prems p have "g \<notin> fst ` set tm" by simp
  then have fresh: "g \<notin> fst ` set (store_of tm)" by (simp add: store_of_keys)
  from Cons.prems p have dist: "distinct (map channelId cfgs)"
    and tm: "distinct (map fst tm)" "\<forall>(g, cfgs)\<in>set tm. distinct (map channelId cfgs)"
    by simp_all
  let ?end = "snd (update_guilds P (store_of (p # tm)) s)"
  show ?case
  proof (cases "map_of (guilds s) g")
    case None
    then have run: "update_guilds P (store_of (p # tm)) s = update_guilds P (store_of tm) s"
      by (simp add: p store_of_def)
    have "map_of (guilds ?end) g = None"
      unfolding run using None by (simp add: update_guilds_cached)
    then have "settled (guild_channels ?end g) (fetched P [] g) cfgs"
      by (simp add: guild_channels_uncached settled_def)
    moreover have "\<forall>(g, cfgs)\<in>set tm. settled (guild_channels ?end g) (fetched P [] g) cfgs"
      unfolding run using tm by (rule Cons.IH)
    ultimately show ?thesis by (simp add: p)
  next
    case (Some gd)
    let ?s1 = "snd (update_loop P g (map config_json cfgs) s)"
    have run: "update_guilds P (store_of (p # tm)) s = update_guilds P (store_of tm) ?s1"
      using Some update_loop_config_no_error [of P g cfgs s]
      by (simp add: p store_of_def case_prod_beta split: option.splits)
    have "settled (guild_channels ?s1 g) (fetched P [] g) cfgs"
      using assms dist by (rule update_loop_settles)
    then have "settled (guild_channels ?end g) (fetched P [] g) cfgs"
      unfolding run using fresh by (simp add: update_guilds_other_guild)
    moreover have "\<forall>(g, cfgs)\<in>set tm. settled (guild_channels ?end g) (fetched P [] g) cfgs"
      unfolding run using tm by (rule Cons.IH)
    ultimately show ?thesis by (simp add: p)
  qed
qed

lemma update_guilds_settled_quiet:
  assumes "steady P"
  shows "\<forall>(g, cfgs)\<in>set tm. settled (guild_channels s g) (fetched P [] g) cfgs \<Longrightarrow>
    \<exists>rs. update_guilds P (store_of tm) s = (None, s\<lparr>requests := requests s @ rs\<rparr>)
       \<and> filter is_rename rs = []"
proof (induction tm arbitrary: s)
  case Nil
  show ?case by (rule exI [of _ "[]"]) (simp add: store_of_def)
next
  case (Cons p tm)
  obtain g cfgs where p: "p = (g, cfgs)" by (cases p)
  from Cons.prems p have here: "settled (guild_channels s g) (fetched P [] g) cfgs"
    and there: "\<forall>(g, cfgs)\<in>set tm. settled (guild_channels s g) (fetched P [] g) cfgs"
    by auto
  obtain r1 where step: "update_guilds P (store_of (p # tm)) s
      = update_guilds P (store_of tm) (s\<lparr>requests := requests s @ r1\<rparr>)"
    and r1: "filter is_rename r1 = []"
  proof (cases "map_of (guilds s) g")
    case None
    then have "update_guilds P (store_of (p # tm)) s
        = update_guilds P (store_of tm) (s\<lparr>requests := requests s @ []\<rparr>)"
      by (simp add: p store_of_def)
    then show ?thesis using that [of "[]"] by simp
  next
    case (Some gd)
    from update_loop_settled_quiet [OF assms here] obtain rs where
      "update_loop P g (map config_json cfgs) s = (None, s\<lparr>requests := requests s @ rs\<rparr>)"
      and "filter is_rename rs = []" by blast
    then show ?thesis using that [of rs] Some by (simp add: p store_of_def)
  qed
  let ?s1 = "s\<lparr>requests := requests s @ r1\<rparr>"
  have "\<forall>(g, cfgs)\<in>set tm. settled (guild_channels ?s1 g) (fetched P [] g) cfgs"
    using there guild_channels_guilds [of ?s1 s] by simp
  from Cons.IH [OF this] obtain r2 where
    rest: "update_guilds P (store_of tm) ?s1 = (None, ?s1\<lparr>requests := requests ?s1 @ r2\<rparr>)"
    and r2: "filter is_rename r2 = []" by blast
  have "update_guilds P (store_of (p # tm)) s = (None, s\<lparr>requests := requests s @ (r1 @ r2)\<rparr>)"
    using step rest by simp
  moreover have "filter is_rename (r1 @ r2) = []" using r1 r2 by simp
  ultimately show ?case by blast
qed

lemma update_counter_requests:
  assumes "property config ''channelId'' = Inr (Some (JStr cid))"
    and "property config ''type'' = Inr t"
    and "map_of (guild_channels s g) cid = Some ch"
    and "accepts P (requests s) (MembersFetch g)"
  shows "requests (snd (update_counter P g config s)) =
     requests s @ MembersFetch g #
       (case ToPropertyKey t of
          Inl e \<Rightarrow> []
        | Inr key \<Rightarrow>
            if ch_name ch \<noteq> channelName key (switch_type t (fetched P (requests s) g))
            then [ChannelSetName g cid (channelName key (switch_type t (fetched P (requests s) g)))]
            else [])"
  using assms
  by (simp add: update_counter_def cache_get_def getCountForType_def case_prod_beta Let_def
      split: sum.splits)

text \<open>The calls of a pass over configurations with distinct channels: each configuration
  contributes its own calls, judged on the channels as the pass found them.\<close>

lemma update_counter_calls:
  assumes "steady P"
  shows "requests (snd (update_counter P g (config_json c) s))
     = requests s @ counter_calls (guild_channels s g) (fetched P [] g) g c"
proof -
  have fetch: "accepts P (requests s) (MembersFetch g)"
    and ms: "fetched P (requests s) g = fetched P [] g"
    using assms by (auto simp: steady_def)
  show ?thesis
    by (cases "map_of (guild_channels s g) (channelId c)")
       (simp_all add: update_counter_config [OF fetch] ms counter_calls_def)
qed

lemma update_loop_calls:
  assumes "steady P"
  shows "distinct (map channelId cfgs) \<Longrightarrow>
    \<forall>c\<in>set cfgs. map_of (guild_channels s g) (channelId c) = map_of chs (channelId c) \<Longrightarrow>
    requests (snd (update_loop P g (map config_json cfgs) s))
      = requests s @ concat (map (counter_calls chs (fetched P [] g) g) cfgs)"
proof (induction cfgs arbitrary: s)
  case Nil
  show ?case by simp
next
  case (Cons c cfgs)
  let ?s1 = "snd (update_counter P g (config_json c) s)"
  have loop: "update_loop P g (map config_json (c # cfgs)) s
      = update_loop P g (map config_json cfgs) ?s1"
    by (simp add: case_prod_beta split: option.splits)
  have "map_of (guild_channels s g) (channelId c) = map_of chs (channelId c)"
    using Cons.prems(2) by simp
  then have here: "counter_calls (guild_channels s g) (fetched P [] g) g c
      = counter_calls chs (fetched P [] g) g c"
    by (simp add: counter_calls_def)
  have step: "requests ?s1 = requests s @ counter_calls chs (fetched P [] g) g c"
    using update_counter_calls [OF assms, of g c s] here by simp
  have later: "\<forall>c'\<in>set cfgs. map_of (guild_channels ?s1 g) (channelId c') = map_of chs (channelId c')"
  proof
    fix c' assume c': "c' \<in> set cfgs"
    with Cons.prems(1) have "channelId c' \<noteq> channelId c" by (auto simp: image_iff)
    then have "map_of (guild_channels ?s1 g) (channelId c') = map_of (guild_channels s g) (channelId c')"
      by (rule update_counter_other_channel)
    also have "\<dots> = map_of chs (channelId c')" using Cons.prems(2) c' by simp
    finally show "map_of (guild_channels ?s1 g) (channelId c') = map_of chs (channelId c')" .
  qed
  have "distinct (map channelId cfgs)" using Cons.prems(1) by simp
  from Cons.IH [OF this later] show ?case
    unfolding loop by (simp add: step)
qed

lemma counter_calls_uncached: "concat (map (counter_calls [] ms g) cfgs) = []"
  by (induction cfgs) (simp_all add: counter_calls_def)

lemma update_guilds_calls:
  assumes "steady P"
  shows "distinct (map fst tm) \<Longrightarrow> \<forall>(g, cfgs)\<in>set tm. distinct (map channelId cfgs) \<Longrightarrow>
    \<forall>(g, cfgs)\<in>set tm. guild_channels s g = chs g \<Longrightarrow>
    requests (snd (update_guilds P (store_of tm) s))
      = requests s @ concat (map (\<lambda>(g, cfgs).
          concat (map (counter_calls (chs g) (fetched P [] g) g) cfgs)) tm)"
proof (induction tm arbitrary: s)
  case Nil
  show ?case by (simp add: store_of_def)
next
  case (Cons p tm)
  obtain g cfgs where p: "p = (g, cfgs)" by (cases p)
  have store: "store_of (p # tm) = (g, JArr (map config_json cfgs)) # store_of tm"
    by (simp add: store_of_def p)
  have chs: "guild_channels s g = chs g" using Cons.prems(3) by (simp add: p)
  have dist: "distinct (map channelId cfgs)" using Cons.prems(2) by (simp add: p)
  have keys: "distinct (map fst tm)" and fresh: "g \<notin> fst ` set tm"
    using Cons.prems(1) by (simp_all add: p)
  have inner: "\<forall>(g, cfgs)\<in>set tm. distinct (map channelId cfgs)"
    using Cons.prems(2) by simp
  show ?case
  proof (cases "map_of (guilds s) g")
    case None
    then have "guild_channels s g = []" by (rule guild_channels_uncached)
    then have none: "concat (map (counter_calls (chs g) (fetched P [] g) g) cfgs) = []"
      using chs counter_calls_uncached [of "fetched P [] g" g cfgs] by simp
    have rest: "\<forall>(g, cfgs)\<in>set tm. guild_channels s g = chs g"
      using Cons.prems(3) by simp
    from Cons.IH [OF keys inner rest] show ?thesis
      unfolding store using None by (simp add: p none)
  next
    case (Some gd)
    let ?s1 = "snd (update_loop P g (map config_json cfgs) s)"
    have step: "update_guilds P (store_of (p # tm)) s = update_guilds P (store_of tm) ?s1"
      using Some update_loop_config_no_error [of P g cfgs s]
      by (simp add: store case_prod_beta)
    have calls: "requests ?s1 = requests s @ concat (map (counter_calls (chs g) (fetched P [] g) g) cfgs)"
      using update_loop_calls [OF assms dist, of s g "chs g"] chs by simp
    have rest: "\<forall>(g', cfgs')\<in>set tm. guild_channels ?s1 g' = chs g'"
    proof (intro ballI, clarify)
      fix g' cfgs' assume in_tm: "(g', cfgs') \<in> set tm"
      then have "g' \<in> fst ` set tm" by (rule image_eqI [rotated]) simp
      with fresh have "g' \<noteq> g" by auto
      then have "guild_channels ?s1 g' = guild_channels s g'" by (rule update_loop_other_guild)
      also have "\<dots> = chs g'" using Cons.prems(3) in_tm by auto
      finally show "guild_channels ?s1 g' = chs g'" .
    qed
    from Cons.IH [OF keys inner rest] show ?thesis
      unfolding step by (simp add: calls p)
  qed
qed

lemma updateGuildCounters_calls:
  assumes "steady P"
    and store: "Map_get (counterConfigs s) g = Some (JArr (map config_json cfgs))"
    and dist: "distinct (map channelId cfgs)"
  shows "requests (snd (updateGuildCounters P g s))
     = requests s @ concat (map (counter_calls (guild_channels s g) (fetched P [] g) g) cfgs)"
  using store update_loop_calls [OF assms(1) dist, of s g "guild_channels s g"]
  by (simp add: updateGuildCounters_def)

lemma updateAllCounters_calls:
  assumes "steady P"
    and store: "counterConfigs s = store_of tm"
    and keys: "distinct (map fst tm)"
    and dist: "\<forall>(g, cfgs)\<in>set tm. distinct (map channelId cfgs)"
  shows "requests (snd (updateAllCounters P s))
     = requests s @ concat (map (\<lambda>(g, cfgs).
         concat (map (counter_calls (guild_channels s g) (fetched P [] g) g) cfgs)) tm)"
  using update_guilds_calls [OF assms(1) keys dist, of s "guild_channels s"]
  by (simp add: updateAllCounters_def store)

lemma updateGuildCounters_twice:
  assumes "steady P" and "renaming P"
    and store: "Map_get (counterConfigs s) g = Some (JArr (map config_json cfgs))"
    and dist: "distinct (map channelId cfgs)"
  shows "filter is_rename (requests (snd (updateGuildCounters P g (snd (updateGuildCounters P g s)))))
     = filter is_rename (requests (snd (updateGuildCounters P g s)))"
proof -
  let ?s1 = "snd (update_loop P g (map config_json cfgs) s)"
  have first: "updateGuildCounters P g s = update_loop P g (map config_json cfgs) s"
    using store by (simp add: updateGuildCounters_def)
  have "counterConfigs ?s1 = counterConfigs s" by (rule update_loop_store)
  then have second: "updateGuildCounters P g ?s1 = update_loop P g (map config_json cfgs) ?s1"
    using store by (simp add: updateGuildCounters_def)
  have "settled (guild_channels ?s1 g) (fetched P [] g) cfgs"
    using assms(1,2) dist by (rule update_loop_settles)
  from update_loop_settled_quiet [OF assms(1) this] obtain rs where
    "update_loop P g (map config_json cfgs) ?s1 = (None, ?s1\<lparr>requests := requests ?s1 @ rs\<rparr>)"
    and "filter is_rename rs = []" by blast
  then show ?thesis by (simp add: first second)
qed

lemma updateAllCounters_twice:
  assumes "steady P" and "renaming P"
    and store: "counterConfigs s = store_of tm"
    and keys: "distinct (map fst tm)"
    and dist: "\<forall>(g, cfgs)\<in>set tm. distinct (map channelId cfgs)"
  shows "filter is_rename (requests (snd (updateAllCounters P (snd (updateAllCounters P s)))))
     = filter is_rename (requests (snd (updateAllCounters P s)))"
proof -
  let ?s1 = "snd (update_guilds P (store_of tm) s)"
  have first: "updateAllCounters P s = update_guilds P (store_of tm) s"
    using store by (simp add: updateAllCounters_def)
  have "counterConfigs ?s1 = counterConfigs s" by (rule update_guilds_store)
  then have second: "updateAllCounters P ?s1 = update_guilds P (store_of tm) ?s1"
    using store by (simp add: updateAllCounters_def)
  have "\<forall>(g, cfgs)\<in>set tm. settled (guild_channels ?s1 g) (fetched P [] g) cfgs"
    using assms(1,2) keys dist by (rule update_guilds_settles)
  from update_guilds_settled_quiet [OF assms(1) this] obtain rs where
    "update_guilds P (store_of tm) ?s1 = (None, ?s1\<lparr>requests := requests ?s1 @ rs\<rparr>)"
    and "filter is_rename rs = []" by blast
  then show ?thesis by (simp add: first second)
qed


lemmas run_defs = updateGuildCounters_def updateAllCounters_def Map_get_def config_json_def
      update_counter_def cache_get_def guild_channels_def getCountForType_def send_def
      obliging_def switch_type_def countForType_def size_filter_def three_members_def
      is_online_def is_offline_def channelName_def label_text_def ToPropertyKey_def
      COUNTER_TYPES_def show_int_def setName_def set_guild_channels_def Let_def
      show_nat_digit digit_def

lemma obliging_steady: "steady obliging \<and> renaming obliging"
  by (simp add: steady_def renaming_def obliging_def)

lemma two_counters_first_pass:
  "requests (snd (updateAllCounters obliging two_counters))
     = [MembersFetch ''111'', ChannelSetName ''111'' ''501'' ''Total Members: 2'',
        MembersFetch ''111'']"
  by (simp add: two_counters_def run_defs)

lemma two_counters_first_pass_of_guild:
  "requests (snd (updateGuildCounters obliging ''111'' two_counters))
     = [MembersFetch ''111'', ChannelSetName ''111'' ''501'' ''Total Members: 2'',
        MembersFetch ''111'']"
  by (simp add: two_counters_def run_defs)

lemmas call_defs = counter_calls_def target_name_def channelName_def label_text_def
      COUNTER_TYPES_def countForType_def size_filter_def three_members_def obliging_def
      show_int_def show_nat_digit digit_def guild_channels_def ToPropertyKey_def
      switch_type_def



section \<open>Provisioning fails without touching the store\<close>

lemma setup_try_rejected_call:
  assumes run: "setup_try P i s = (r, s1)"
    and n: "length (requests s) \<le> n" "n < length (requests s1)"
    and rej: "\<not> accepts P (take n (requests s1)) (requests s1 ! n)"
    and kind: "precedes_push (requests s1 ! n)"
  shows "r = Inl (Rejected (requests s1 ! n)) \<and> Suc n = length (requests s1)
     \<and> counterConfigs s1 = counterConfigs s \<and> CONFIG_FILE s1 = CONFIG_FILE s"
  using assms
  unfolding setup_try_def find_or_create_category_def
    getCountForType_def channels_create_def saveConfigs_def Let_def
  apply (simp add: case_prod_beta split: if_splits bool.splits option.splits sum.splits)
  apply (auto simp: nth_append less_Suc_eq le_Suc_eq split: if_splits)
  done

lemma setup_try_requests: "length (requests s) \<le> length (requests (snd (setup_try P i s)))"
  unfolding setup_try_def find_or_create_category_def
    getCountForType_def channels_create_def saveConfigs_def Let_def
  by (simp add: case_prod_beta split: if_splits bool.splits option.splits sum.splits)

lemma setup_rejected_call:
  assumes run: "handleCounterSetup P i s = (out, s')"
    and n: "length (requests s) \<le> n" "n < length (requests s')"
    and rej: "\<not> accepts P (take n (requests s')) (requests s' ! n)"
    and kind: "precedes_push (requests s' ! n)"
  shows "out = SetupFailed (Rejected (requests s' ! n))
     \<and> requests s' = take (Suc n) (requests s') @ [EditReply]
     \<and> counterConfigs s' = counterConfigs s \<and> CONFIG_FILE s' = CONFIG_FILE s"
proof (cases "ManageChannels i")
  case False
  with run have "requests s' = requests s @ [Reply]"
    by (auto simp: handleCounterSetup_def)
  with n have "requests s' ! n = Reply" by (simp add: nth_append)
  with kind show ?thesis by simp
next
  case True
  obtain r s1 where tried: "setup_try P i s = (r, s1)" by (cases "setup_try P i s")
  show ?thesis
  proof (cases r)
    case (Inr u)
    with run True tried have s': "s' = s1" by (simp add: handleCounterSetup_def)
    from setup_try_rejected_call [OF tried] n rej kind Inr show ?thesis unfolding s' by blast
  next
    case (Inl e)
    with run True tried have out: "out = SetupFailed e" and s': "s' = snd (send P EditReply s1)"
      by (simp_all add: handleCounterSetup_def)
    have reqs: "requests s' = requests s1 @ [EditReply]" by (simp add: s')
    have "n \<noteq> length (requests s1)"
    proof
      assume "n = length (requests s1)"
      then have "requests s' ! n = EditReply" by (simp add: reqs)
      with kind show False by simp
    qed
    with n(2) have n1: "n < length (requests s1)" by (simp add: reqs)
    then have same: "requests s' ! n = requests s1 ! n" "take n (requests s') = take n (requests s1)"
      by (simp_all add: reqs nth_append)
    have kept: "counterConfigs s' = counterConfigs s1" "CONFIG_FILE s' = CONFIG_FILE s1"
      by (simp_all add: s')
    from setup_try_rejected_call [OF tried n(1) n1] rej kind
    have r: "r = Inl (Rejected (requests s1 ! n))" and last: "Suc n = length (requests s1)"
      and store: "counterConfigs s1 = counterConfigs s" "CONFIG_FILE s1 = CONFIG_FILE s"
      unfolding same by simp_all
    have prefix: "take (Suc n) (requests s') = requests s1" using last by (simp add: reqs)
    show ?thesis
      unfolding same(1) prefix kept using r Inl out store reqs by simp
  qed
qed

lemma setup_failed_store:
  assumes run: "handleCounterSetup P i s = (SetupFailed e, s')"
    and e: "e \<noteq> Rejected EditReply"
  shows "counterConfigs s' = counterConfigs s \<and> CONFIG_FILE s' = CONFIG_FILE s"
  using assms
  unfolding handleCounterSetup_def setup_try_def find_or_create_category_def
    getCountForType_def channels_create_def saveConfigs_def Let_def
  by (auto simp: case_prod_beta split: if_splits bool.splits option.splits sum.splits)

text \<open>The run that succeeds: with no category of that name, the setup creates the
  category and then the channel under it, named after the kind and the count, appends
  one configuration to the store and writes the file.\<close>

lemma setup_roles_scenario:
  "handleCounterSetup obliging (admin\<lparr>opt_type := ''roles''\<rparr>) one_guild =
   (SetupComplete,
    \<lparr>counterConfigs =
       [(''111'', JArr [config_json \<lparr>channelId = ''901'', type = ''roles'', categoryId = ''900''\<rparr>])],
     guilds = [(''111'', \<lparr>g_name = ''Guild'', channels =
        [(''900'', \<lparr>ch_name = ''Stats'', ch_type = GuildCategory, ch_parent = None\<rparr>),
         (''901'', \<lparr>ch_name = ''Members with Roles: 1'', ch_type = GuildVoice,
                    ch_parent = Some ''900''\<rparr>)]\<rparr>)],
     CONFIG_FILE = Document (JObj [(''counterConfigs'', JObj [(''111'',
        JObj [(''serverName'', JStr ''Guild''),
              (''configs'', JArr [config_json
                 \<lparr>channelId = ''901'', type = ''roles'', categoryId = ''900''\<rparr>])])])]),
     requests = [DeferReply, ChannelCreate ''111'' ''Stats'' GuildCategory None,
        MembersFetch ''111'',
        ChannelCreate ''111'' ''Members with Roles: 1'' GuildVoice (Some ''900''),
        WriteFile (JObj [(''counterConfigs'', JObj [(''111'',
          JObj [(''serverName'', JStr ''Guild''),
                (''configs'', JArr [config_json
                   \<lparr>channelId = ''901'', type = ''roles'', categoryId = ''900''\<rparr>])])])]),
        EditReply]\<rparr>)"
  by (simp add: one_guild_def handleCounterSetup_def setup_try_def find_or_create_category_def
      getCountForType_def channels_create_def saveConfigs_def Let_def send_def guild_channels_def
      set_guild_channels_def switch_type_def countForType_def size_filter_def three_members_def
      channelName_def label_text_def COUNTER_TYPES_def show_int_def show_nat_digit digit_def
      obliging_def admin_def push_config_def Map_has_def Map_get_def Map_set_def config_json_def
      configData_def serverName_def)

text \<open>
  Claim C5. Take any run of \<^verbatim>\<open>handleCounterSetup\<close>. If one of the calls the
  run makes before the append was rejected (the deferred reply, the creation of the
  category, the member fetch, the creation of the channel), then the run went from it
  to the \<^verbatim>\<open>catch\<close>: the one call made after it is the failure reply, the outcome
  is the failure with that rejection as its error, and the configuration store and the
  file are as they were. And whenever the run ends in the failure reply with an error
  other than the rejection of the final reply (also a type error, which the language
  raises before the append), the store and the file are as they were.
\<close>

theorem setup_failure_keeps_store:
  assumes "handleCounterSetup P i s = (out, s')"
  shows "(length (requests s) \<le> n \<and> n < length (requests s')
        \<and> \<not> accepts P (take n (requests s')) (requests s' ! n)
        \<and> precedes_push (requests s' ! n)
      \<longrightarrow> out = SetupFailed (Rejected (requests s' ! n))
          \<and> requests s' = take (Suc n) (requests s') @ [EditReply]
          \<and> counterConfigs s' = counterConfigs s \<and> CONFIG_FILE s' = CONFIG_FILE s)
   \<and> (out = SetupFailed e \<and> e \<noteq> Rejected EditReply
      \<longrightarrow> counterConfigs s' = counterConfigs s \<and> CONFIG_FILE s' = CONFIG_FILE s)"
  using setup_rejected_call [OF assms, of n] setup_failed_store [of P i s e s'] assms
  by blast

lemmas setup_defs = handleCounterSetup_def setup_try_def find_or_create_category_def
  getCountForType_def channels_create_def saveConfigs_def Let_def send_def guild_channels_def
  set_guild_channels_def switch_type_def countForType_def size_filter_def three_members_def
  channelName_def label_text_def COUNTER_TYPES_def show_int_def show_nat_digit digit_def
  obliging_def admin_def

lemma no_voice_run:
  "handleCounterSetup no_voice admin one_guild =
   (SetupFailed (Rejected (ChannelCreate ''111'' ''Total Members: 2'' GuildVoice (Some ''900''))),
    \<lparr>counterConfigs = [(''111'', JArr [])],
     guilds = [(''111'', \<lparr>g_name = ''Guild'', channels =
        [(''900'', \<lparr>ch_name = ''Stats'', ch_type = GuildCategory, ch_parent = None\<rparr>)]\<rparr>)],
     CONFIG_FILE = Missing,
     requests = [DeferReply, ChannelCreate ''111'' ''Stats'' GuildCategory None,
        MembersFetch ''111'',
        ChannelCreate ''111'' ''Total Members: 2'' GuildVoice (Some ''900''),
        EditReply]\<rparr>)"
  by (simp add: no_voice_def one_guild_def setup_defs)

theorem setup_failure_keeps_store_witness:
  "fst (handleCounterSetup no_voice admin one_guild)
     = SetupFailed (Rejected (ChannelCreate ''111'' ''Total Members: 2'' GuildVoice (Some ''900'')))
   \<and> requests (snd (handleCounterSetup no_voice admin one_guild))
     = [DeferReply, ChannelCreate ''111'' ''Stats'' GuildCategory None, MembersFetch ''111'',
        ChannelCreate ''111'' ''Total Members: 2'' GuildVoice (Some ''900''), EditReply]
   \<and> counterConfigs (snd (handleCounterSetup no_voice admin one_guild)) = [(''111'', JArr [])]
   \<and> CONFIG_FILE (snd (handleCounterSetup no_voice admin one_guild)) = Missing"
  using setup_failure_keeps_store [OF prod.collapse [symmetric],
      where P = no_voice and i = admin and s = one_guild and n = 3
        and e = "Rejected (ChannelCreate ''111'' ''Total Members: 2'' GuildVoice (Some ''900''))"]
  by (simp add: no_voice_run)

section \<open>Teardown\<close>

lemma channel_delete_eq:
  "channel_delete P g cid s =
     (if accepts P (requests s) (ChannelDelete g cid)
      then (None, set_guild_channels g (AList.delete cid (guild_channels s g))
              (s\<lparr>requests := requests s @ [ChannelDelete g cid]\<rparr>))
      else (Some (Rejected (ChannelDelete g cid)),
            s\<lparr>requests := requests s @ [ChannelDelete g cid]\<rparr>))"
  by (simp add: channel_delete_def Let_def send_def bool.case_eq_if guild_channels_def)

lemma channel_delete_requests [simp]:
  "requests (snd (channel_delete P g cid s)) = requests s @ [ChannelDelete g cid]"
  by (simp add: channel_delete_eq)

lemma channel_delete_store [simp]:
  "counterConfigs (snd (channel_delete P g cid s)) = counterConfigs s"
  "CONFIG_FILE (snd (channel_delete P g cid s)) = CONFIG_FILE s"
  by (simp_all add: channel_delete_eq)

lemma channel_delete_channels:
  "accepts P (requests s) (ChannelDelete g cid) \<Longrightarrow>
   map_of (guild_channels (snd (channel_delete P g cid s)) g) k
     = (if k = cid then None else map_of (guild_channels s g) k)"
  by (cases "map_of (guilds s) g")
     (simp_all add: channel_delete_eq guild_channels_set delete_conv' guild_channels_uncached
        guild_channels_guilds [of "s\<lparr>requests := r\<rparr>" s for r])

lemma channel_delete_rejected:
  "\<not> accepts P (requests s) (ChannelDelete g cid) \<Longrightarrow>
   guilds (snd (channel_delete P g cid s)) = guilds s"
  by (simp add: channel_delete_eq)

lemma channel_delete_cached:
  "(map_of (guilds (snd (channel_delete P g cid s))) g' = None) = (map_of (guilds s) g' = None)"
  by (simp add: channel_delete_eq map_of_guilds_set)

text \<open>The category step on a configuration as the setup writes it.\<close>

lemma delete_empty_category_config:
  "delete_empty_category P g (config_json c) s =
     (case map_of (guild_channels s g) (categoryId c) of
        None \<Rightarrow> (None, s)
      | Some category \<Rightarrow>
          if ch_type category \<noteq> GuildCategory then (Some TypeError, s)
          else if filter (\<lambda>(k, ch). ch_parent ch = Some (categoryId c)) (guild_channels s g) = []
          then channel_delete P g (categoryId c) s
          else (None, s))"
  by (simp add: delete_empty_category_def cache_get_def children_size_def split: option.splits)

lemma delete_counter_config:
  "delete_counter P g (config_json c) d s =
     (case map_of (guild_channels s g) (channelId c) of
        None \<Rightarrow> (fst (delete_empty_category P g (config_json c) s), d,
                 snd (delete_empty_category P g (config_json c) s))
      | Some ch \<Rightarrow>
          if accepts P (requests s) (ChannelDelete g (channelId c))
          then (fst (delete_empty_category P g (config_json c)
                       (snd (channel_delete P g (channelId c) s))),
                d + 1,
                snd (delete_empty_category P g (config_json c)
                       (snd (channel_delete P g (channelId c) s))))
          else (Some (Rejected (ChannelDelete g (channelId c))), d,
                snd (channel_delete P g (channelId c) s)))"
  by (simp add: delete_counter_def cache_get_def case_prod_beta channel_delete_eq
      split: option.splits)

lemma reset_loop_config:
  "reset_loop P g (config_json c # cs) d f s =
     (case delete_counter P g (config_json c) d s of
        (e, d1, s1) \<Rightarrow>
          reset_loop P g cs d1 (if e = None then f else f + 1) s1)"
  by (simp add: case_prod_beta split: option.splits)

lemma delete_counter_store [simp]:
  "counterConfigs (snd (snd (delete_counter P g config d s))) = counterConfigs s"
  by (simp add: delete_counter_def delete_empty_category_def case_prod_beta
      split: sum.splits option.splits)

lemma reset_loop_store [simp]:
  "counterConfigs (snd (snd (snd (reset_loop P g cs d f s)))) = counterConfigs s"
  by (induction cs arbitrary: d f s)
     (simp_all add: case_prod_beta split: sum.splits option.splits)

lemma reset_loop_config_no_error: "fst (reset_loop P g (map config_json cfgs) d f s) = None"
  by (induction cfgs arbitrary: d f s) (simp_all add: case_prod_beta split: option.splits)

text \<open>
  Claim C8, as amended. When the store has no entry for the guild, or an empty array, a
  run of \<^verbatim>\<open>handleCounterReset\<close> makes no delete call and leaves the store, the
  guild cache and the file as they were; and when the member is an administrator, the
  guild is cached and the two replies go through, the run ends in the reply that there
  are no counters, which is not the failure reply and shows no count, after the
  deferred reply and that reply and no other call.
\<close>

theorem reset_without_counters:
  assumes none: "Map_get (counterConfigs s) (guild_id i) = None
      \<or> Map_get (counterConfigs s) (guild_id i) = Some (JArr [])"
    and run: "handleCounterReset P i s = (out, s')"
  shows "filter is_delete (requests s') = filter is_delete (requests s)
     \<and> counterConfigs s' = counterConfigs s \<and> guilds s' = guilds s
     \<and> CONFIG_FILE s' = CONFIG_FILE s
     \<and> (Administrator i \<and> accepts P (requests s) DeferReply
          \<and> map_of (guilds s) (guild_id i) \<noteq> None
          \<and> accepts P (requests s @ [DeferReply]) EditReply
        \<longrightarrow> out = NoCountersFound \<and> requests s' = requests s @ [DeferReply, EditReply])"
  using assms
  unfolding handleCounterReset_def reset_try_def no_counters_def
  by (auto simp: case_prod_beta split: if_splits bool.splits option.splits)

text \<open>
  Claim C8 as stated fails: on a guild without an entry the run does not end in the
  report of a reset with zero deleted channels and zero failed deletions; it ends in the
  reply that there are no counters, which shows no count.
\<close>

theorem reset_absent_entry_shows_no_count:
  "handleCounterReset obliging admin unconfigured
     = (NoCountersFound, unconfigured\<lparr>requests := [DeferReply, EditReply]\<rparr>)
   \<and> fst (handleCounterReset obliging admin unconfigured) \<noteq> ResetComplete 0 0"
  by (simp add: handleCounterReset_def reset_try_def no_counters_def unconfigured_def admin_def
      obliging_def send_def Map_get_def)

theorem reset_without_counters_witness:
  "handleCounterReset obliging admin one_guild
     = (NoCountersFound, one_guild\<lparr>requests := [DeferReply, EditReply]\<rparr>)"
  using reset_without_counters [of one_guild admin obliging
      "fst (handleCounterReset obliging admin one_guild)"
      "snd (handleCounterReset obliging admin one_guild)"]
  by (simp add: handleCounterReset_def reset_try_def no_counters_def one_guild_def admin_def
      obliging_def send_def Map_get_def)

lemma counters_cached_shrink:
  assumes "counters_cached chs cfgs"
    and "\<forall>k. map_of chs' k = (if k \<in> D then None else map_of chs k)"
    and "\<forall>c\<in>set cfgs. channelId c \<notin> D"
  shows "counters_cached chs' cfgs"
  using assms unfolding counters_cached_def by (auto split: option.splits)

lemma delete_empty_category_ok:
  assumes cat: "case map_of (guild_channels s g) (categoryId c) of None \<Rightarrow> True
      | Some k \<Rightarrow> ch_type k = GuildCategory"
    and ok: "accepts P (requests s) (ChannelDelete g (categoryId c))"
  shows "fst (delete_empty_category P g (config_json c) s) = None
     \<and> (\<exists>D. D \<subseteq> {categoryId c} \<and>
          (\<forall>k. map_of (guild_channels (snd (delete_empty_category P g (config_json c) s)) g) k
               = (if k \<in> D then None else map_of (guild_channels s g) k)))"
proof (cases "map_of (guild_channels s g) (categoryId c)")
  case None
  then show ?thesis
    by (auto simp: delete_empty_category_config intro!: exI [of _ "{}"])
next
  case (Some k)
  with cat have k: "ch_type k = GuildCategory" by simp
  show ?thesis
  proof (cases "filter (\<lambda>(k, ch). ch_parent ch = Some (categoryId c)) (guild_channels s g) = []")
    case True
    have "\<forall>k. map_of (guild_channels (snd (channel_delete P g (categoryId c) s)) g) k
        = (if k \<in> {categoryId c} then None else map_of (guild_channels s g) k)"
      by (simp add: channel_delete_channels [OF ok])
    moreover have "fst (channel_delete P g (categoryId c) s) = None"
      using ok by (simp add: channel_delete_eq)
    ultimately show ?thesis
      using Some k True by (auto simp: delete_empty_category_config intro!: exI [of _ "{categoryId c}"])
  next
    case False
    then show ?thesis
      using Some k by (auto simp: delete_empty_category_config intro!: exI [of _ "{}"])
  qed
qed

text \<open>The two counters of the loop, when the platform rejects the deletion of the
  channels in \<open>bad\<close> and accepts every other deletion.\<close>

lemma reset_loop_counts:
  assumes answers: "\<forall>h k. accepts P h (ChannelDelete g k) = (k \<notin> bad)"
  shows "distinct (map channelId cfgs) \<Longrightarrow> \<forall>c\<in>set cfgs. categoryId c \<notin> bad \<Longrightarrow>
    counters_cached (guild_channels s g) cfgs \<Longrightarrow>
    \<exists>s'. reset_loop P g (map config_json cfgs) d f s
       = (None, d + length (filter (\<lambda>c. channelId c \<notin> bad) cfgs),
                f + length (filter (\<lambda>c. channelId c \<in> bad) cfgs), s')"
proof (induction cfgs arbitrary: d f s)
  case Nil
  then show ?case by simp
next
  case (Cons c cfgs)
  let ?chs = "guild_channels s g"
  from Cons.prems have dist: "distinct (map channelId cfgs)" and fresh: "channelId c \<notin> channelId ` set cfgs"
    and cats: "\<forall>c\<in>set cfgs. categoryId c \<notin> bad" and cat: "categoryId c \<notin> bad"
    and rest: "counters_cached ?chs cfgs"
    by (simp_all add: counters_cached_def)
  from Cons.prems(3) obtain ch where ch: "map_of ?chs (channelId c) = Some ch"
    and voice: "ch_type ch \<noteq> GuildCategory"
    and category: "case map_of ?chs (categoryId c) of None \<Rightarrow> True | Some k \<Rightarrow> ch_type k = GuildCategory"
    by (auto simp: counters_cached_def split: option.splits)
  show ?case
  proof (cases "channelId c \<in> bad")
    case True
    let ?s1 = "snd (channel_delete P g (channelId c) s)"
    have rej: "\<not> accepts P (requests s) (ChannelDelete g (channelId c))"
      using answers True by simp
    have step: "delete_counter P g (config_json c) d s
        = (Some (Rejected (ChannelDelete g (channelId c))), d, ?s1)"
      using ch rej by (simp add: delete_counter_config)
    have "counters_cached (guild_channels ?s1 g) cfgs"
      using rest guild_channels_guilds [OF channel_delete_rejected [OF rej], of g] by simp
    from Cons.IH [OF dist cats this, of d "f + 1"] obtain s' where
      ih: "reset_loop P g (map config_json cfgs) d (f + 1) ?s1
         = (None, d + length (filter (\<lambda>c. channelId c \<notin> bad) cfgs),
                  f + 1 + length (filter (\<lambda>c. channelId c \<in> bad) cfgs), s')" by blast
    have unfold: "reset_loop P g (map config_json (c # cfgs)) d f s
        = reset_loop P g (map config_json cfgs) d (f + 1) ?s1"
      unfolding list.map reset_loop_config step by simp
    have "reset_loop P g (map config_json (c # cfgs)) d f s
        = (None, d + length (filter (\<lambda>c. channelId c \<notin> bad) (c # cfgs)),
                 f + length (filter (\<lambda>c. channelId c \<in> bad) (c # cfgs)), s')"
      unfolding unfold ih using True by simp
    then show ?thesis ..
  next
    case False
    let ?s1 = "snd (channel_delete P g (channelId c) s)"
    let ?s2 = "snd (delete_empty_category P g (config_json c) ?s1)"
    have acc: "accepts P (requests s) (ChannelDelete g (channelId c))"
      using answers False by simp
    have chs1: "map_of (guild_channels ?s1 g) k
        = (if k = channelId c then None else map_of ?chs k)" for k
      by (rule channel_delete_channels [OF acc])
    have category1: "case map_of (guild_channels ?s1 g) (categoryId c) of None \<Rightarrow> True
        | Some k \<Rightarrow> ch_type k = GuildCategory"
      using category by (simp add: chs1)
    have acc2: "accepts P (requests ?s1) (ChannelDelete g (categoryId c))"
      using answers cat by simp
    from delete_empty_category_ok [OF category1 acc2] obtain D where
      e2: "fst (delete_empty_category P g (config_json c) ?s1) = None"
      and D: "D \<subseteq> {categoryId c}"
      and chs2: "\<forall>k. map_of (guild_channels ?s2 g) k
          = (if k \<in> D then None else map_of (guild_channels ?s1 g) k)" by blast
    have step: "delete_counter P g (config_json c) d s = (None, d + 1, ?s2)"
      using ch acc e2 by (simp add: delete_counter_config)
    have all2: "\<forall>k. map_of (guild_channels ?s2 g) k
        = (if k \<in> insert (channelId c) D then None else map_of ?chs k)"
      using chs2 by (simp add: chs1)
    have "\<forall>c'\<in>set cfgs. channelId c' \<notin> insert (channelId c) D"
    proof
      fix c' assume c': "c' \<in> set cfgs"
      have "channelId c' \<in> channelId ` set cfgs" using c' by (rule imageI)
      with fresh have differ: "channelId c' \<noteq> channelId c" by auto
      have "case map_of ?chs (channelId c') of None \<Rightarrow> False
          | Some ch \<Rightarrow> ch_type ch \<noteq> GuildCategory"
        using rest c' by (simp add: counters_cached_def)
      with category have "channelId c' \<noteq> categoryId c"
        by (auto split: option.splits)
      with D have "channelId c' \<notin> D" by auto
      with differ show "channelId c' \<notin> insert (channelId c) D" by simp
    qed
    with rest all2 have "counters_cached (guild_channels ?s2 g) cfgs"
      by (rule counters_cached_shrink)
    from Cons.IH [OF dist cats this, of "d + 1" f] obtain s' where
      ih: "reset_loop P g (map config_json cfgs) (d + 1) f ?s2
         = (None, d + 1 + length (filter (\<lambda>c. channelId c \<notin> bad) cfgs),
                  f + length (filter (\<lambda>c. channelId c \<in> bad) cfgs), s')" by blast
    have unfold: "reset_loop P g (map config_json (c # cfgs)) d f s
        = reset_loop P g (map config_json cfgs) (d + 1) f ?s2"
      unfolding list.map reset_loop_config step by simp
    have "reset_loop P g (map config_json (c # cfgs)) d f s
        = (None, d + length (filter (\<lambda>c. channelId c \<notin> bad) (c # cfgs)),
                 f + length (filter (\<lambda>c. channelId c \<in> bad) (c # cfgs)), s')"
      unfolding unfold ih using False by simp
    then show ?thesis ..
  qed
qed

text \<open>Only a \<^verbatim>\<open>null\<close> configuration makes the loop throw.\<close>

lemma property_not_null: "c \<noteq> JNull \<Longrightarrow> \<exists>v. property c k = Inr v"
  by (cases c) simp_all

lemma reset_loop_no_null: "JNull \<notin> set cs \<Longrightarrow> fst (reset_loop P g cs d f s) = None"
proof (induction cs arbitrary: d f s)
  case Nil
  show ?case by simp
next
  case (Cons c cs)
  then have "c \<noteq> JNull" and rest: "JNull \<notin> set cs" by auto
  then obtain v where "property c ''channelId'' = Inr v"
    using property_not_null by blast
  then show ?case
    using Cons.IH [OF rest] by (simp add: case_prod_beta split: option.splits)
qed

text \<open>The run of \<^verbatim>\<open>handleCounterReset\<close> on a guild that has configurations, none
  of them \<^verbatim>\<open>null\<close>.\<close>

lemma reset_run:
  assumes "Administrator i" and "accepts P (requests s) DeferReply"
    and "map_of (guilds s) (guild_id i) \<noteq> None"
    and "Map_get (counterConfigs s) (guild_id i) = Some (JArr cs)"
    and "cs \<noteq> []" and "JNull \<notin> set cs"
    and "reset_loop P (guild_id i) cs 0 0 (snd (send P DeferReply s)) = (e, deleted, failed, s2)"
  shows "handleCounterReset P i s =
     (if accepts P (requests s2 @ [WriteFile (configData (guilds s2)
            (Map_delete (guild_id i) (counterConfigs s)))]) EditReply
      then (ResetComplete deleted failed,
            snd (send P EditReply
              (saveConfigs P (s2\<lparr>counterConfigs := Map_delete (guild_id i) (counterConfigs s)\<rparr>))))
      else (ResetFailed (Rejected EditReply),
            snd (send P EditReply (snd (send P EditReply
              (saveConfigs P (s2\<lparr>counterConfigs := Map_delete (guild_id i) (counterConfigs s)\<rparr>)))))))"
proof -
  have "e = None"
    using reset_loop_no_null [OF assms(6), of P "guild_id i" 0 0 "snd (send P DeferReply s)"]
      assms(7) by simp
  moreover have "counterConfigs s2 = counterConfigs s"
    using reset_loop_store [of P "guild_id i" cs 0 0 "snd (send P DeferReply s)"]
      assms(7) by simp
  ultimately show ?thesis
    using assms
    by (auto simp: handleCounterReset_def reset_try_def case_prod_beta bool.case_eq_if
        split: option.splits)
qed

lemma count_one:
  "distinct (map f xs) \<Longrightarrow> x \<in> set xs \<Longrightarrow> length (filter (\<lambda>c. f c = f x) xs) = 1"
proof (induction xs)
  case Nil
  then show ?case by simp
next
  case (Cons a xs)
  show ?case
  proof (cases "f a = f x")
    case True
    with Cons.prems have "\<forall>c\<in>set xs. f c \<noteq> f x" by (simp add: image_iff) metis
    then have "filter (\<lambda>c. f c = f x) xs = []" by (simp add: filter_empty_conv)
    with True show ?thesis by simp
  next
    case False
    with Cons show ?thesis by auto
  qed
qed

text \<open>
  Claim C6, as amended. Take a run of \<^verbatim>\<open>handleCounterReset\<close> by an administrator
  in a cached guild, whose deferred reply goes through, for a guild whose entry is an
  array of at least one configuration, none of them \<^verbatim>\<open>null\<close>. Whatever deletions
  fail, the guild has no entry in the store afterwards, and after the loop the run
  requests the write of the document of that store and then makes the final reply,
  followed by the failure reply when the final reply was rejected and by nothing
  otherwise. If moreover the configurations are three configurations as the setup
  writes them, with distinct cached channels that are not categories and categories
  that are category channels or not cached, the platform rejects the deletion of
  exactly one of these channels and accepts every other deletion, and every reply goes
  through, the run reports two channels deleted and one failure.
\<close>

theorem reset_counts_and_clears:
  assumes "Administrator i" and "accepts P (requests s) DeferReply"
    and "map_of (guilds s) (guild_id i) \<noteq> None"
    and "Map_get (counterConfigs s) (guild_id i) = Some (JArr cs)"
    and "cs \<noteq> []" and "JNull \<notin> set cs"
    and "handleCounterReset P i s = (out, s')"
  shows "Map_get (counterConfigs s') (guild_id i) = None
     \<and> (\<exists>h. requests s' = h @ WriteFile (configData (guilds s') (counterConfigs s')) # EditReply #
            (if out = ResetFailed (Rejected EditReply) then [EditReply] else []))
     \<and> (cs = map config_json cfgs \<and> length cfgs = 3 \<and> distinct (map channelId cfgs)
          \<and> counters_cached (guild_channels s (guild_id i)) cfgs
          \<and> x \<in> set cfgs
          \<and> (\<forall>h k. accepts P h (ChannelDelete (guild_id i) k) = (k \<noteq> channelId x))
          \<and> (\<forall>h. accepts P h EditReply)
        \<longrightarrow> out = ResetComplete 2 1)"
proof -
  let ?g = "guild_id i"
  let ?s1 = "snd (send P DeferReply s)"
  obtain e deleted failed s2 where
    loop: "reset_loop P ?g cs 0 0 ?s1 = (e, deleted, failed, s2)"
    by (cases "reset_loop P ?g cs 0 0 ?s1") auto
  let ?s3 = "snd (send P EditReply
        (saveConfigs P (s2\<lparr>counterConfigs := Map_delete ?g (counterConfigs s)\<rparr>)))"
  let ?ok = "accepts P (requests s2 @ [WriteFile (configData (guilds s2)
            (Map_delete ?g (counterConfigs s)))]) EditReply"
  note run = reset_run [OF assms(1-6) loop]
  from run assms(7) have s': "s' = (if ?ok then ?s3 else snd (send P EditReply ?s3))"
    and out: "out = (if ?ok then ResetComplete deleted failed else ResetFailed (Rejected EditReply))"
    by (simp_all split: if_splits)
  have cleared: "Map_get (counterConfigs s') ?g = None"
    by (simp add: s' Map_get_def Map_delete_def delete_conv')
  have saved: "\<exists>h. requests s' = h @ WriteFile (configData (guilds s') (counterConfigs s')) #
      EditReply # (if out = ResetFailed (Rejected EditReply) then [EditReply] else [])"
    by (rule exI [of _ "requests s2"]) (simp add: s' out)
  have counts: "out = ResetComplete 2 1"
    if cfgs: "cs = map config_json cfgs"
      and three: "length cfgs = 3" and dist: "distinct (map channelId cfgs)"
      and cached: "counters_cached (guild_channels s ?g) cfgs" and x: "x \<in> set cfgs"
      and del: "\<forall>h k. accepts P h (ChannelDelete ?g k) = (k \<noteq> channelId x)"
      and reply: "\<forall>h. accepts P h EditReply"
  proof -
    have answers: "\<forall>h k. accepts P h (ChannelDelete ?g k) = (k \<notin> {channelId x})"
      using del by simp
    have xc: "case map_of (guild_channels s ?g) (channelId x) of None \<Rightarrow> False
        | Some ch \<Rightarrow> ch_type ch \<noteq> GuildCategory"
      using cached x by (simp add: counters_cached_def)
    have cats: "\<forall>c\<in>set cfgs. categoryId c \<notin> {channelId x}"
    proof
      fix c assume "c \<in> set cfgs"
      with cached have "case map_of (guild_channels s ?g) (categoryId c) of None \<Rightarrow> True
          | Some k \<Rightarrow> ch_type k = GuildCategory"
        by (simp add: counters_cached_def)
      with xc have "categoryId c \<noteq> channelId x" by (auto split: option.splits)
      then show "categoryId c \<notin> {channelId x}" by simp
    qed
    have cached1: "counters_cached (guild_channels ?s1 ?g) cfgs"
      using cached by simp
    from reset_loop_counts [OF answers dist cats cached1, of 0 0] loop
    have deleted: "deleted = length (filter (\<lambda>c. channelId c \<notin> {channelId x}) cfgs)"
      and failed: "failed = length (filter (\<lambda>c. channelId c \<in> {channelId x}) cfgs)"
      unfolding cfgs by auto
    have one: "length (filter (\<lambda>c. channelId c = channelId x) cfgs) = 1"
      using dist x by (rule count_one)
    have "length (filter (\<lambda>c. channelId c = channelId x) cfgs)
        + length (filter (\<lambda>c. channelId c \<noteq> channelId x) cfgs) = length cfgs"
      by (rule sum_length_filter_compl)
    with one three have two: "length (filter (\<lambda>c. channelId c \<noteq> channelId x) cfgs) = 2"
      by simp
    show ?thesis
      using out reply deleted failed one two by simp
  qed
  from cleared saved counts show ?thesis by blast
qed

lemmas reset_defs = handleCounterReset_def reset_try_def no_counters_def send_def Map_get_def
  Map_delete_def config_json_def delete_counter_def delete_empty_category_def cache_get_def
  children_size_def channel_delete_def guild_channels_def set_guild_channels_def saveConfigs_def
  configData_def serverName_def Let_def obliging_def admin_def

lemma three_counters_run:
  "handleCounterReset keeps_502 admin three_counters =
   (ResetComplete 2 1,
    \<lparr>counterConfigs = [],
     guilds = [(''111'', \<lparr>g_name = ''Guild'', channels =
       [(''500'', \<lparr>ch_name = ''Stats'', ch_type = GuildCategory, ch_parent = None\<rparr>),
        (''502'', \<lparr>ch_name = ''Total Bots: 1'', ch_type = GuildVoice, ch_parent = Some ''500''\<rparr>)]\<rparr>)],
     CONFIG_FILE = Document (JObj [(''counterConfigs'', JObj [])]),
     requests = [DeferReply, ChannelDelete ''111'' ''501'', ChannelDelete ''111'' ''502'',
        ChannelDelete ''111'' ''503'', WriteFile (JObj [(''counterConfigs'', JObj [])]),
        EditReply]\<rparr>)"
  by (simp add: three_counters_def keeps_502_def reset_defs)

theorem reset_counts_and_clears_witness:
  "fst (handleCounterReset keeps_502 admin three_counters) = ResetComplete 2 1
   \<and> Map_get (counterConfigs (snd (handleCounterReset keeps_502 admin three_counters))) ''111'' = None"
proof -
  let ?cfgs = "[\<lparr>channelId = ''501'', type = ''members'', categoryId = ''500''\<rparr>,
       \<lparr>channelId = ''502'', type = ''bots'', categoryId = ''500''\<rparr>,
       \<lparr>channelId = ''503'', type = ''roles'', categoryId = ''500''\<rparr>]"
  have store: "Map_get (counterConfigs three_counters) (guild_id admin)
      = Some (JArr (map config_json ?cfgs))"
    by (simp add: three_counters_def admin_def Map_get_def)
  have some: "map config_json ?cfgs \<noteq> []" "JNull \<notin> set (map config_json ?cfgs)"
    by (simp_all add: config_json_def)
  have gate: "Administrator admin" "accepts keeps_502 (requests three_counters) DeferReply"
    "map_of (guilds three_counters) (guild_id admin) \<noteq> None"
    by (simp_all add: admin_def keeps_502_def obliging_def three_counters_def)
  have cached: "counters_cached (guild_channels three_counters (guild_id admin))
      [\<lparr>channelId = ''501'', type = ''members'', categoryId = ''500''\<rparr>,
       \<lparr>channelId = ''502'', type = ''bots'', categoryId = ''500''\<rparr>,
       \<lparr>channelId = ''503'', type = ''roles'', categoryId = ''500''\<rparr>]"
    by (simp add: counters_cached_def guild_channels_def three_counters_def admin_def)
  have answers: "\<forall>h k. accepts keeps_502 h (ChannelDelete (guild_id admin) k)
      = (k \<noteq> channelId \<lparr>channelId = ''502'', type = ''bots'', categoryId = ''500''\<rparr>)"
    "\<forall>h. accepts keeps_502 h EditReply"
    by (simp_all add: keeps_502_def obliging_def admin_def)
  show ?thesis
    using reset_counts_and_clears [OF gate store some prod.collapse [symmetric],
        where cfgs = ?cfgs
          and x = "\<lparr>channelId = ''502'', type = ''bots'', categoryId = ''500''\<rparr>"]
      cached answers
    by (simp add: admin_def)
qed

text \<open>
  Claim C6 as stated says the entry is removed and the store persisted in every run.
  A run on a guild whose entry is the empty array ends at the check of line 354: the
  entry is still in the store afterwards, and the file is not written.
\<close>

theorem reset_keeps_empty_entry:
  "fst (handleCounterReset obliging admin one_guild) = NoCountersFound
   \<and> Map_get (counterConfigs (snd (handleCounterReset obliging admin one_guild))) ''111''
       = Some (JArr [])
   \<and> requests (snd (handleCounterReset obliging admin one_guild)) = [DeferReply, EditReply]"
  by (simp add: one_guild_def reset_defs)

lemma channel_delete_keeps:
  "map_of (guild_channels s g) k \<noteq> None \<Longrightarrow> k \<noteq> x \<Longrightarrow>
   map_of (guild_channels (snd (channel_delete P g x s)) g) k \<noteq> None"
proof (cases "accepts P (requests s) (ChannelDelete g x)")
  case True
  assume "map_of (guild_channels s g) k \<noteq> None" "k \<noteq> x"
  then show ?thesis by (simp add: channel_delete_channels [OF True])
next
  case False
  assume "map_of (guild_channels s g) k \<noteq> None"
  then show ?thesis
    using guild_channels_guilds [OF channel_delete_rejected [OF False], of g] by simp
qed

lemma delete_empty_category_trace:
  "\<exists>rs. requests (snd (delete_empty_category P g (config_json c) s)) = requests s @ rs
     \<and> (\<forall>k. map_of (guild_channels s g) k \<noteq> None \<longrightarrow>
            map_of (guild_channels (snd (delete_empty_category P g (config_json c) s)) g) k \<noteq> None
            \<or> ChannelDelete g k \<in> set rs)"
proof (cases "\<exists>category. map_of (guild_channels s g) (categoryId c) = Some category
    \<and> ch_type category = GuildCategory
    \<and> filter (\<lambda>(k, ch). ch_parent ch = Some (categoryId c)) (guild_channels s g) = []")
  case True
  then have run: "delete_empty_category P g (config_json c) s = channel_delete P g (categoryId c) s"
    by (auto simp: delete_empty_category_config)
  show ?thesis
    unfolding run
    by (rule exI [of _ "[ChannelDelete g (categoryId c)]"])
       (use channel_delete_keeps in auto)
next
  case False
  then have run: "snd (delete_empty_category P g (config_json c) s) = s"
    by (auto simp: delete_empty_category_config split: option.splits)
  show ?thesis
    unfolding run by (rule exI [of _ "[]"]) simp
qed

lemma delete_counter_trace:
  "\<exists>rs. requests (snd (snd (delete_counter P g (config_json c) d s))) = requests s @ rs
     \<and> (\<forall>k. map_of (guild_channels s g) k \<noteq> None \<longrightarrow>
            map_of (guild_channels (snd (snd (delete_counter P g (config_json c) d s))) g) k \<noteq> None
            \<or> ChannelDelete g k \<in> set rs)
     \<and> (map_of (guild_channels s g) (channelId c) \<noteq> None \<longrightarrow>
            ChannelDelete g (channelId c) \<in> set rs)"
proof (cases "map_of (guild_channels s g) (channelId c)")
  case None
  then have run: "snd (snd (delete_counter P g (config_json c) d s))
      = snd (delete_empty_category P g (config_json c) s)"
    by (simp add: delete_counter_config)
  from delete_empty_category_trace [of P g c s] None show ?thesis
    unfolding run by auto
next
  case (Some ch)
  let ?s1 = "snd (channel_delete P g (channelId c) s)"
  show ?thesis
  proof (cases "accepts P (requests s) (ChannelDelete g (channelId c))")
    case False
    then have run: "snd (snd (delete_counter P g (config_json c) d s)) = ?s1"
      using Some by (simp add: delete_counter_config)
    show ?thesis
      unfolding run
      by (rule exI [of _ "[ChannelDelete g (channelId c)]"])
         (use channel_delete_keeps in auto)
  next
    case True
    then have run: "snd (snd (delete_counter P g (config_json c) d s))
        = snd (delete_empty_category P g (config_json c) ?s1)"
      using Some by (simp add: delete_counter_config)
    from delete_empty_category_trace [of P g c ?s1] obtain rs where
      rs: "requests (snd (delete_empty_category P g (config_json c) ?s1)) = requests ?s1 @ rs"
      and keeps: "\<forall>k. map_of (guild_channels ?s1 g) k \<noteq> None \<longrightarrow>
            map_of (guild_channels (snd (delete_empty_category P g (config_json c) ?s1)) g) k \<noteq> None
            \<or> ChannelDelete g k \<in> set rs" by blast
    show ?thesis
      unfolding run
    proof (rule exI [of _ "ChannelDelete g (channelId c) # rs"], intro conjI allI impI)
      show "requests (snd (delete_empty_category P g (config_json c) ?s1))
          = requests s @ ChannelDelete g (channelId c) # rs"
        using rs by simp
    next
      fix k assume k: "map_of (guild_channels s g) k \<noteq> None"
      show "map_of (guild_channels (snd (delete_empty_category P g (config_json c) ?s1)) g) k \<noteq> None
          \<or> ChannelDelete g k \<in> set (ChannelDelete g (channelId c) # rs)"
      proof (cases "k = channelId c")
        case True
        then show ?thesis by simp
      next
        case False
        with k have "map_of (guild_channels ?s1 g) k \<noteq> None" by (rule channel_delete_keeps)
        with keeps show ?thesis by auto
      qed
    next
      show "ChannelDelete g (channelId c) \<in> set (ChannelDelete g (channelId c) # rs)" by simp
    qed
  qed
qed

lemma reset_loop_trace:
  "\<exists>rs. requests (snd (snd (snd (reset_loop P g (map config_json cfgs) d f s)))) = requests s @ rs
     \<and> (\<forall>k. map_of (guild_channels s g) k \<noteq> None \<longrightarrow>
            map_of (guild_channels (snd (snd (snd (reset_loop P g (map config_json cfgs) d f s)))) g) k \<noteq> None
            \<or> ChannelDelete g k \<in> set rs)
     \<and> (\<forall>c\<in>set cfgs. map_of (guild_channels s g) (channelId c) \<noteq> None \<longrightarrow>
            ChannelDelete g (channelId c) \<in> set rs)"
proof (induction cfgs arbitrary: d f s)
  case Nil
  show ?case by (rule exI [of _ "[]"]) simp
next
  case (Cons c cfgs)
  obtain e d1 s1 where step: "delete_counter P g (config_json c) d s = (e, d1, s1)"
    by (cases "delete_counter P g (config_json c) d s")
  let ?f1 = "if e = None then f else f + 1"
  let ?end = "snd (snd (snd (reset_loop P g (map config_json cfgs) d1 ?f1 s1)))"
  have run: "reset_loop P g (map config_json (c # cfgs)) d f s
      = reset_loop P g (map config_json cfgs) d1 ?f1 s1"
    unfolding list.map reset_loop_config step by simp
  from delete_counter_trace [of P g c d s] step obtain r1 where
    r1: "requests s1 = requests s @ r1"
    and keep1: "\<forall>k. map_of (guild_channels s g) k \<noteq> None \<longrightarrow>
        map_of (guild_channels s1 g) k \<noteq> None \<or> ChannelDelete g k \<in> set r1"
    and own: "map_of (guild_channels s g) (channelId c) \<noteq> None \<longrightarrow>
        ChannelDelete g (channelId c) \<in> set r1" by auto
  from Cons.IH [of d1 ?f1 s1] obtain r2 where
    r2: "requests ?end = requests s1 @ r2"
    and keep2: "\<forall>k. map_of (guild_channels s1 g) k \<noteq> None \<longrightarrow>
        map_of (guild_channels ?end g) k \<noteq> None \<or> ChannelDelete g k \<in> set r2"
    and rest: "\<forall>c\<in>set cfgs. map_of (guild_channels s1 g) (channelId c) \<noteq> None \<longrightarrow>
        ChannelDelete g (channelId c) \<in> set r2" by blast
  show ?case
    unfolding run
  proof (rule exI [of _ "r1 @ r2"], intro conjI allI impI ballI)
    show "requests ?end = requests s @ r1 @ r2" using r1 r2 by simp
  next
    fix k assume k: "map_of (guild_channels s g) k \<noteq> None"
    have "map_of (guild_channels s1 g) k \<noteq> None \<or> ChannelDelete g k \<in> set r1"
      using keep1 [rule_format, OF k] .
    then show "map_of (guild_channels ?end g) k \<noteq> None \<or> ChannelDelete g k \<in> set (r1 @ r2)"
    proof
      assume k1: "map_of (guild_channels s1 g) k \<noteq> None"
      have "map_of (guild_channels ?end g) k \<noteq> None \<or> ChannelDelete g k \<in> set r2"
        using keep2 [rule_format, OF k1] .
      then show ?thesis by (rule disjE) simp_all
    next
      assume "ChannelDelete g k \<in> set r1"
      then show ?thesis by simp
    qed
  next
    fix c' assume c': "c' \<in> set (c # cfgs)" and cached: "map_of (guild_channels s g) (channelId c') \<noteq> None"
    show "ChannelDelete g (channelId c') \<in> set (r1 @ r2)"
    proof (cases "c' = c")
      case True
      with own cached show ?thesis by simp
    next
      case False
      with c' have in_rest: "c' \<in> set cfgs" by simp
      from keep1 cached have "map_of (guild_channels s1 g) (channelId c') \<noteq> None
          \<or> ChannelDelete g (channelId c') \<in> set r1" by simp
      then show ?thesis
      proof
        assume "map_of (guild_channels s1 g) (channelId c') \<noteq> None"
        with rest in_rest have "ChannelDelete g (channelId c') \<in> set r2" by simp
        then show ?thesis by simp
      next
        assume "ChannelDelete g (channelId c') \<in> set r1"
        then show ?thesis by simp
      qed
    qed
  qed
qed

lemma delete_empty_category_requests:
  "requests (snd (delete_empty_category P g (config_json c) s)) =
     requests s @ (if category_empty (guild_channels s g) (categoryId c)
                   then [ChannelDelete g (categoryId c)] else [])"
  by (simp add: delete_empty_category_config category_empty_def split: option.splits)

lemma delete_counter_rejected:
  assumes "map_of (guild_channels s g) (channelId c) \<noteq> None"
    and "\<not> accepts P (requests s) (ChannelDelete g (channelId c))"
  shows "delete_counter P g (config_json c) d s =
     (Some (Rejected (ChannelDelete g (channelId c))), d,
      s\<lparr>requests := requests s @ [ChannelDelete g (channelId c)]\<rparr>)"
  using assms by (auto simp: delete_counter_config channel_delete_eq)

lemma delete_counter_category:
  assumes "map_of (guild_channels s g) (channelId c) = None
      \<or> accepts P (requests s) (ChannelDelete g (channelId c))"
  shows "requests (snd (snd (delete_counter P g (config_json c) d s))) =
     requests (if map_of (guild_channels s g) (channelId c) = None then s
               else snd (channel_delete P g (channelId c) s))
     @ (if category_empty
             (guild_channels (if map_of (guild_channels s g) (channelId c) = None then s
                              else snd (channel_delete P g (channelId c) s)) g)
             (categoryId c)
        then [ChannelDelete g (categoryId c)] else [])"
proof (cases "map_of (guild_channels s g) (channelId c)")
  case None
  then show ?thesis
    by (simp add: delete_counter_config delete_empty_category_requests)
next
  case (Some ch)
  with assms have "accepts P (requests s) (ChannelDelete g (channelId c))" by simp
  with Some show ?thesis
    by (simp add: delete_counter_config delete_empty_category_requests)
qed

lemma reset_loop_asks_every_channel:
  assumes "c \<in> set cfgs" and "map_of (guild_channels s g) (channelId c) \<noteq> None"
  shows "ChannelDelete g (channelId c)
     \<in> set (drop (length (requests s))
              (requests (snd (snd (snd (reset_loop P g (map config_json cfgs) d f s))))))"
proof -
  from reset_loop_trace [of P g cfgs d f s] obtain rs where
    rs: "requests (snd (snd (snd (reset_loop P g (map config_json cfgs) d f s)))) = requests s @ rs"
    and asked: "\<forall>c\<in>set cfgs. map_of (guild_channels s g) (channelId c) \<noteq> None \<longrightarrow>
            ChannelDelete g (channelId c) \<in> set rs" by blast
  from asked assms have "ChannelDelete g (channelId c) \<in> set rs" by simp
  then show ?thesis by (simp add: rs)
qed

text \<open>
  Claim C7, as amended. For the configurations of a guild as the setup writes them,
  whatever the platform answers: the loop runs to its end; for every configuration
  whose channel is cached when the loop starts, a call to delete that channel is made
  during the loop; an accepted deletion removes the channel from the cache. In the step
  for one configuration: when the channel is cached and its deletion is rejected, the
  step ends there with that error, and no call for the category is made; when the
  channel is not cached or its deletion is accepted, a call to delete the category is
  made exactly when, after the channel's deletion, the category exists and has no child
  channel. And the loop counts a step that threw as one failure, whichever deletion
  threw, and goes on with the remaining configurations.
\<close>

theorem reset_isolates_failures:
  "fst (reset_loop P g (map config_json cfgs) d f s) = None
   \<and> (\<forall>c\<in>set cfgs. map_of (guild_channels s g) (channelId c) \<noteq> None \<longrightarrow>
         ChannelDelete g (channelId c)
           \<in> set (drop (length (requests s))
                    (requests (snd (snd (snd (reset_loop P g (map config_json cfgs) d f s)))))))
   \<and> (accepts P (requests s) (ChannelDelete g k) \<longrightarrow>
         map_of (guild_channels (snd (channel_delete P g k s)) g) k = None)
   \<and> (map_of (guild_channels s g) (channelId c) \<noteq> None
        \<and> \<not> accepts P (requests s) (ChannelDelete g (channelId c)) \<longrightarrow>
         delete_counter P g (config_json c) d s =
           (Some (Rejected (ChannelDelete g (channelId c))), d,
            s\<lparr>requests := requests s @ [ChannelDelete g (channelId c)]\<rparr>))
   \<and> (map_of (guild_channels s g) (channelId c) = None
        \<or> accepts P (requests s) (ChannelDelete g (channelId c)) \<longrightarrow>
         requests (snd (snd (delete_counter P g (config_json c) d s))) =
           requests (if map_of (guild_channels s g) (channelId c) = None then s
                     else snd (channel_delete P g (channelId c) s))
           @ (if category_empty
                   (guild_channels (if map_of (guild_channels s g) (channelId c) = None then s
                                    else snd (channel_delete P g (channelId c) s)) g)
                   (categoryId c)
              then [ChannelDelete g (categoryId c)] else []))
   \<and> reset_loop P g (config_json c # cs) d f s =
        (case delete_counter P g (config_json c) d s of
           (e, d1, s1) \<Rightarrow> reset_loop P g cs d1 (if e = None then f else f + 1) s1)"
proof (intro conjI ballI impI)
  show "fst (reset_loop P g (map config_json cfgs) d f s) = None"
    by (rule reset_loop_config_no_error)
next
  fix c' assume "c' \<in> set cfgs" "map_of (guild_channels s g) (channelId c') \<noteq> None"
  then show "ChannelDelete g (channelId c')
      \<in> set (drop (length (requests s))
               (requests (snd (snd (snd (reset_loop P g (map config_json cfgs) d f s))))))"
    by (rule reset_loop_asks_every_channel)
next
  assume "accepts P (requests s) (ChannelDelete g k)"
  then show "map_of (guild_channels (snd (channel_delete P g k s)) g) k = None"
    by (simp add: channel_delete_channels)
next
  assume "map_of (guild_channels s g) (channelId c) \<noteq> None
      \<and> \<not> accepts P (requests s) (ChannelDelete g (channelId c))"
  then show "delete_counter P g (config_json c) d s =
      (Some (Rejected (ChannelDelete g (channelId c))), d,
       s\<lparr>requests := requests s @ [ChannelDelete g (channelId c)]\<rparr>)"
    by (simp add: delete_counter_rejected)
next
  assume "map_of (guild_channels s g) (channelId c) = None
      \<or> accepts P (requests s) (ChannelDelete g (channelId c))"
  then show "requests (snd (snd (delete_counter P g (config_json c) d s))) =
      requests (if map_of (guild_channels s g) (channelId c) = None then s
                else snd (channel_delete P g (channelId c) s))
      @ (if category_empty
              (guild_channels (if map_of (guild_channels s g) (channelId c) = None then s
                               else snd (channel_delete P g (channelId c) s)) g)
              (categoryId c)
         then [ChannelDelete g (categoryId c)] else [])"
    by (rule delete_counter_category)
next
  show "reset_loop P g (config_json c # cs) d f s =
      (case delete_counter P g (config_json c) d s of
         (e, d1, s1) \<Rightarrow> reset_loop P g cs d1 (if e = None then f else f + 1) s1)"
    by (rule reset_loop_config)
qed

theorem reset_isolates_failures_witness:
  "ChannelDelete ''111'' ''503''
     \<in> set (requests (snd (snd (snd (reset_loop keeps_502 ''111''
          (map config_json
            [\<lparr>channelId = ''501'', type = ''members'', categoryId = ''500''\<rparr>,
             \<lparr>channelId = ''502'', type = ''bots'', categoryId = ''500''\<rparr>,
             \<lparr>channelId = ''503'', type = ''roles'', categoryId = ''500''\<rparr>])
          0 0 three_counters)))))
   \<and> delete_counter keeps_502 ''111''
        (config_json \<lparr>channelId = ''502'', type = ''bots'', categoryId = ''500''\<rparr>) 0 three_counters
      = (Some (Rejected (ChannelDelete ''111'' ''502'')), 0,
         three_counters\<lparr>requests := [ChannelDelete ''111'' ''502'']\<rparr>)
   \<and> requests (snd (snd (delete_counter keeps_501 ''111''
        (config_json \<lparr>channelId = ''999'', type = ''bots'', categoryId = ''500''\<rparr>) 0 moved_counter)))
      = [ChannelDelete ''111'' ''500'']"
proof -
  have cached: "map_of (guild_channels three_counters ''111'') ''503'' \<noteq> None"
    "map_of (guild_channels three_counters ''111'') ''502'' \<noteq> None"
    "\<not> accepts keeps_502 (requests three_counters) (ChannelDelete ''111'' ''502'')"
    "requests three_counters = []"
    by (simp_all add: three_counters_def guild_channels_def keeps_502_def)
  have moved: "map_of (guild_channels moved_counter ''111'') ''999'' = None"
    "category_empty (guild_channels moved_counter ''111'') ''500''"
    "requests moved_counter = []"
    by (simp_all add: moved_counter_def guild_channels_def category_empty_def)
  show ?thesis
    using reset_isolates_failures [of keeps_502 "''111''"
        "[\<lparr>channelId = ''501'', type = ''members'', categoryId = ''500''\<rparr>,
          \<lparr>channelId = ''502'', type = ''bots'', categoryId = ''500''\<rparr>,
          \<lparr>channelId = ''503'', type = ''roles'', categoryId = ''500''\<rparr>]"
        0 0 three_counters "''502''"
        "\<lparr>channelId = ''502'', type = ''bots'', categoryId = ''500''\<rparr>" "[]"]
      reset_isolates_failures [of keeps_501 "''111''" "[]" 0 0 moved_counter "''500''"
        "\<lparr>channelId = ''999'', type = ''bots'', categoryId = ''500''\<rparr>" "[]"]
      cached moved
    by simp
qed

text \<open>
  Claim C7 as stated says the category's deletion is attempted whatever becomes of the
  channel's deletion. Here the channel 501 was moved out of its category 500, which
  exists and has no child, before and after the run; the deletion of 501 is rejected,
  and the run makes no call to delete 500: the run reports no deletion and one failure.
\<close>

theorem reset_skips_category_after_failed_channel:
  "fst (handleCounterReset keeps_501 admin moved_counter) = ResetComplete 0 1
   \<and> category_empty (guild_channels moved_counter ''111'') ''500''
   \<and> category_empty
        (guild_channels (snd (handleCounterReset keeps_501 admin moved_counter)) ''111'') ''500''
   \<and> requests (snd (handleCounterReset keeps_501 admin moved_counter))
       = [DeferReply, ChannelDelete ''111'' ''501'',
          WriteFile (JObj [(''counterConfigs'', JObj [])]), EditReply]"
  by (simp add: moved_counter_def keeps_501_def category_empty_def reset_defs)

end
